theory Spec2Isabelle
  imports Complex_Main "HOL-Library.Word"
begin

section \<open>Reverse-mode differentiation of a computation graph (glow, Graph/Grad.cpp)\<close>

text \<open>
  The development embeds \<^verbatim>\<open>src/glow/Graph/Grad.cpp\<close>: the gradient map
  \<^verbatim>\<open>GraphGradMapper\<close> and the pass \<^verbatim>\<open>generateGradientNodes\<close>.
  Nodes are immutable once built, so a node is a value that carries its address; two
  nodes are the same object exactly when they are equal as values (the address is part
  of the value). A value reference \<^verbatim>\<open>NodeValue\<close> is a node and a result number.
\<close>

subsection \<open>Types, kinds and nodes\<close>

type_synonym size_t = "64 word"

datatype TypeRef = TypeRef (dims: "size_t list")

text \<open>A \<^verbatim>\<open>float\<close> is only ever stored or compared with zero by the pass.\<close>

datatype float = NaN | NegInf | Finite real | PosInf

fun gt_zero :: "float \<Rightarrow> bool" where
  "gt_zero NaN = False"
| "gt_zero NegInf = False"
| "gt_zero (Finite r) = (0 < r)"
| "gt_zero PosInf = True"

datatype InitKind = Extern | Broadcast | Xavier

datatype Mode = Add | Sub | Mul

datatype Kind =
    VariableNodeKind
  | ConvolutionNodeKind
  | PoolNodeKind
  | FullyConnectedNodeKind
  | BatchNormalizationNodeKind
  | LocalResponseNormalizationNodeKind
  | SoftMaxNodeKind
  | RegressionNodeKind
  | ArithmeticNodeKind
  | ReluNodeKind
  | SigmoidNodeKind
  | TanhNodeKind
  | SaveNodeKind
  | ReshapeNodeKind
  | TransposeNodeKind
  | SliceNodeKind
  | ConcatNodeKind
  | ZeroNodeKind
  | InsertTensorNodeKind
  | SGDNodeKind
  | GradNodeKind Kind

text \<open>
  The node classes whose differentiation rule is their own \<^verbatim>\<open>getGrad\<close> method and
  that the pass never takes apart (the arguments of \<^verbatim>\<open>CONVERT_TO_GRAD_NODE\<close>,
  \<^verbatim>\<open>ArithmeticNode\<close> apart, which the gradient map also builds).
\<close>

datatype OpClass =
    ConvolutionNode
  | PoolNode
  | FullyConnectedNode
  | BatchNormalizationNode
  | LocalResponseNormalizationNode
  | SoftMaxNode
  | RegressionNode
  | ReluNode
  | SigmoidNode
  | TanhNode

fun kindOf :: "OpClass \<Rightarrow> Kind" where
  "kindOf ConvolutionNode = ConvolutionNodeKind"
| "kindOf PoolNode = PoolNodeKind"
| "kindOf FullyConnectedNode = FullyConnectedNodeKind"
| "kindOf BatchNormalizationNode = BatchNormalizationNodeKind"
| "kindOf LocalResponseNormalizationNode = LocalResponseNormalizationNodeKind"
| "kindOf SoftMaxNode = SoftMaxNodeKind"
| "kindOf RegressionNode = RegressionNodeKind"
| "kindOf ReluNode = ReluNodeKind"
| "kindOf SigmoidNode = SigmoidNodeKind"
| "kindOf TanhNode = TanhNodeKind"

text \<open>
  One constructor per node class, with the constructor arguments of the source after
  the address: \<^verbatim>\<open>new ZeroNode(name, type)\<close> at address \<open>a\<close> is \<open>ZeroNode a name type\<close>.
  \<open>GradNode\<close> stands for the backward node a delegated \<^verbatim>\<open>getGrad\<close> returns.
\<close>

datatype Node =
    Variable (addr: nat) (getName: string) TypeRef InitKind float bool
  | OpNode (addr: nat) OpClass (getName: string) TypeRef "(Node \<times> nat) list"
  | ArithmeticNode (addr: nat) (getName: string) "Node \<times> nat" "Node \<times> nat" Mode
  | SaveNode (addr: nat) (getName: string) (getInput: "Node \<times> nat") (getVariable: "Node \<times> nat")
  | ReshapeNode (addr: nat) (getName: string) TypeRef (getInput: "Node \<times> nat") "size_t list"
  | TransposeNode (addr: nat) (getName: string) TypeRef (getInput: "Node \<times> nat")
      (getShuffle: "nat list")
  | SliceNode (addr: nat) (getName: string) TypeRef (getInput: "Node \<times> nat")
      (getStart: "size_t list")
  | ConcatNode (addr: nat) (getName: string) TypeRef (getInputs: "(Node \<times> nat) list")
      (getDim: nat)
  | ZeroNode (addr: nat) (getName: string) TypeRef
  | InsertTensorNode (addr: nat) (getName: string) "Node \<times> nat" "Node \<times> nat" "size_t list"
  | SGDNode (addr: nat) (getName: string) "Node \<times> nat" "Node \<times> nat" "Node \<times> nat"
      float float float float size_t
  | GradNode (addr: nat) Kind (getName: string) "(Node \<times> nat) list" "Node \<times> nat"

type_synonym NodeValue = "Node \<times> nat"

text \<open>The implicit conversion of a \<^verbatim>\<open>Node *\<close> to a value reference: result 0.\<close>

abbreviation NodeValueOf :: "Node \<Rightarrow> NodeValue" where
  "NodeValueOf N \<equiv> (N, 0)"

abbreviation getResult :: "Node \<Rightarrow> NodeValue" where
  "getResult N \<equiv> NodeValueOf N"

abbreviation getOutput :: "Node \<Rightarrow> NodeValue" where
  "getOutput N \<equiv> getVariable N"

fun getKind :: "Node \<Rightarrow> Kind" where
  "getKind (Variable a n t k v tr) = VariableNodeKind"
| "getKind (OpNode a c n t ops) = kindOf c"
| "getKind (ArithmeticNode a n l r m) = ArithmeticNodeKind"
| "getKind (SaveNode a n i v) = SaveNodeKind"
| "getKind (ReshapeNode a n t i d) = ReshapeNodeKind"
| "getKind (TransposeNode a n t i sh) = TransposeNodeKind"
| "getKind (SliceNode a n t i st) = SliceNodeKind"
| "getKind (ConcatNode a n t is d) = ConcatNodeKind"
| "getKind (ZeroNode a n t) = ZeroNodeKind"
| "getKind (InsertTensorNode a n b sm st) = InsertTensorNodeKind"
| "getKind (SGDNode a n g v gs l1 l2 lr mo bs) = SGDNodeKind"
| "getKind (GradNode a k n ops og) = GradNodeKind k"

text \<open>The operands of a node, in order: what \<^verbatim>\<open>Node::visit\<close> walks into.\<close>

fun operands :: "Node \<Rightarrow> NodeValue list" where
  "operands (Variable a n t k v tr) = []"
| "operands (OpNode a c n t ops) = ops"
| "operands (ArithmeticNode a n l r m) = [l, r]"
| "operands (SaveNode a n i v) = [i, v]"
| "operands (ReshapeNode a n t i d) = [i]"
| "operands (TransposeNode a n t i sh) = [i]"
| "operands (SliceNode a n t i st) = [i]"
| "operands (ConcatNode a n t is d) = is"
| "operands (ZeroNode a n t) = []"
| "operands (InsertTensorNode a n b sm st) = [b, sm]"
| "operands (SGDNode a n g v gs l1 l2 lr mo bs) = [g, v, gs]"
| "operands (GradNode a k n ops og) = ops @ [og]"

text \<open>
  Modelled from the spec: \<^verbatim>\<open>Graph::getVoidTy\<close> is defined in Graph.cpp, which is not
  under src/. Section 4.4 calls the accumulator built from it a zero-sized placeholder:
  the void type has no dimensions.
\<close>

definition getVoidTy :: TypeRef where
  "getVoidTy = TypeRef []"

text \<open>
  The type of a node. The classes that are built without a type argument
  (Nodes.h is not under src/) take the type of their first operand; an update node
  has no result. No theorem below depends on these four equations. A value is typed by
  its node: the node classes of the source have one result each; the results of the
  opaque \<open>GradNode\<close> are all given the type of the output gradient it was built from,
  and no theorem evaluates the type of one.
\<close>

fun getType :: "Node \<Rightarrow> TypeRef" where
  "getType (Variable a n t k v tr) = t"
| "getType (OpNode a c n t ops) = t"
| "getType (ArithmeticNode a n (L, i) r m) = getType L"
| "getType (SaveNode a n (I, i) v) = getType I"
| "getType (ReshapeNode a n t i d) = t"
| "getType (TransposeNode a n t i sh) = t"
| "getType (SliceNode a n t i st) = t"
| "getType (ConcatNode a n t is d) = t"
| "getType (ZeroNode a n t) = t"
| "getType (InsertTensorNode a n (B, i) sm st) = getType B"
| "getType (SGDNode a n g v gs l1 l2 lr mo bs) = getVoidTy"
| "getType (GradNode a k n ops (OG, i)) = getType OG"

text \<open>
  Modelled from the spec: \<^verbatim>\<open>Variable::isTraining\<close> is declared in Nodes.h, which is
  not under src/. Section 3: a parameter carries a trainability flag and an
  initialization policy. Only variables have the flag.
\<close>

fun isTraining :: "Node \<Rightarrow> bool" where
  "isTraining (Variable a n t k v tr) = tr"
| "isTraining N = False"

text \<open>
  The \<^verbatim>\<open>Variable\<close> constructor takes the policy and no flag (line 184): the flag of
  a variable built by the pass is read off its policy, a variable with no initialisation
  of its own being one that is not trained. No theorem below depends on this choice.
\<close>

definition newVariable :: "string \<Rightarrow> TypeRef \<Rightarrow> InitKind \<Rightarrow> float \<Rightarrow> nat \<Rightarrow> Node" where
  "newVariable name t k v a = Variable a name t k v (k \<noteq> Extern)"

fun dyn_cast_Variable :: "Node \<Rightarrow> Node option" where
  "dyn_cast_Variable (Variable a n t k v tr) = Some (Variable a n t k v tr)"
| "dyn_cast_Variable N = None"

subsection \<open>Configuration, errors and the state of the pass\<close>

record TrainingConfig =
  learningRate :: float
  momentum :: float
  L1Decay :: float
  L2Decay :: float
  batchSize :: size_t

datatype CompilationMode = Train | TrainDebug | Infer

text \<open>
  \<open>MissingGradient\<close>: \<^verbatim>\<open>map_.get\<close> on a key that is not there. \<open>UnsupportedKind\<close>:
  \<^verbatim>\<open>assert(false); glow_unreachable()\<close> at the end of the dispatch. \<open>OutOfBounds\<close>:
  an index past the end of a vector, which C++ leaves undefined.
\<close>

datatype error = MissingGradient | UnsupportedKind | OutOfBounds

text \<open>
  The graph \<open>G\<close> (\<open>vars\<close>, \<open>nodes\<close> and the gradient-variable table \<open>grads\<close>), the free
  store (\<open>fresh\<close> is the address the next \<^verbatim>\<open>new\<close> returns, \<open>heap\<close> the objects
  allocated so far, oldest first) and the locals of the pass: the gradient map \<open>gradMap\<close> (the member \<^verbatim>\<open>map_\<close>)
  and the two staging lists.
\<close>

record state =
  vars :: "Node list"
  nodes :: "Node list"
  grads :: "(Node \<times> Node option) list"
  fresh :: nat
  heap :: "Node list"
  gradMap :: "NodeValue \<Rightarrow> NodeValue option"
  toAppend :: "Node list"
  newVars :: "Node list"

definition new :: "(nat \<Rightarrow> Node) \<Rightarrow> state \<Rightarrow> Node \<times> state" where
  "new mk s = (mk (fresh s), s\<lparr>fresh := Suc (fresh s), heap := heap s @ [mk (fresh s)]\<rparr>)"

subsection \<open>The graph's own operations\<close>

text \<open>
  Modelled from the spec: \<^verbatim>\<open>Graph::addNode\<close>, \<^verbatim>\<open>addVar\<close>, \<^verbatim>\<open>createArithmetic\<close>,
  \<^verbatim>\<open>createSave\<close> and \<^verbatim>\<open>addGradientVariable\<close> are defined in Graph.cpp, which is not
  under src/. Section 6: the graph container exposes node insertion and the capability
  to construct each operator kind; section 9: the source mutates the graph in place,
  interleaved with the traversal. A \<^verbatim>\<open>create\<close> method builds the node and inserts it
  into the graph at once; \<^verbatim>\<open>createSave\<close> also creates the variable the value is saved
  into (line 174 reads it back as the save node's output).
\<close>

definition addNode :: "Node \<Rightarrow> state \<Rightarrow> state" where
  "addNode N s = s\<lparr>nodes := nodes s @ [N]\<rparr>"

definition addVar :: "Node \<Rightarrow> state \<Rightarrow> state" where
  "addVar V s = s\<lparr>vars := vars s @ [V]\<rparr>"

definition createArithmetic ::
  "string \<Rightarrow> NodeValue \<Rightarrow> NodeValue \<Rightarrow> Mode \<Rightarrow> state \<Rightarrow> Node \<times> state" where
  "createArithmetic name LHS RHS op s =
     (let (N, s1) = new (\<lambda>a. ArithmeticNode a name LHS RHS op) s
      in (N, addNode N s1))"

definition createSave :: "string \<Rightarrow> NodeValue \<Rightarrow> state \<Rightarrow> Node \<times> state" where
  "createSave name input s =
     (let (dest, s1) = new (newVariable name (getType (fst input)) Extern (Finite 0)) s;
          s2 = addVar dest s1;
          (save, s3) = new (\<lambda>a. SaveNode a name input (NodeValueOf dest)) s2
      in (save, addNode save s3))"

definition addGradientVariable :: "Node \<Rightarrow> Node option \<Rightarrow> state \<Rightarrow> state" where
  "addGradientVariable V GradV s = s\<lparr>grads := grads s @ [(V, GradV)]\<rparr>"

subsection \<open>GraphGradMapper (lines 20-38)\<close>

text \<open>
  Modelled from the spec: the class of \<^verbatim>\<open>map_\<close> is declared in Grad.h, which is not
  under src/. Section 3: a mapping from value reference to its gradient, at most one
  entry per value reference, \<^verbatim>\<open>insert\<close> replacing the entry; section 7: \<^verbatim>\<open>get\<close> on
  a missing key is a fatal error.
\<close>

definition addGradient :: "NodeValue \<Rightarrow> NodeValue \<Rightarrow> state \<Rightarrow> state" where
  "addGradient activation grad s =
     (case gradMap s activation of
        Some curr' \<Rightarrow>
          (let (sumNode, s1) = createArithmetic ''updateGrad'' curr' grad Add s
           in s1\<lparr>gradMap := (gradMap s1)(activation \<mapsto> NodeValueOf sumNode)\<rparr>)
      | None \<Rightarrow> s\<lparr>gradMap := (gradMap s)(activation \<mapsto> grad)\<rparr>)"

definition hasGradient :: "NodeValue \<Rightarrow> state \<Rightarrow> bool" where
  "hasGradient activation s = (gradMap s activation \<noteq> None)"

definition getGradient :: "NodeValue \<Rightarrow> state \<Rightarrow> error + NodeValue" where
  "getGradient activation s =
     (case gradMap s activation of None \<Rightarrow> Inl MissingGradient | Some g \<Rightarrow> Inr g)"

subsection \<open>The dependency-order traversal (lines 56-64)\<close>

text \<open>
  Modelled from the spec: \<^verbatim>\<open>PostOrderVisitor\<close> and \<^verbatim>\<open>Node::visit\<close> are defined in
  Graph/Utils.h and Nodes.cpp, which are not under src/. Section 4.2: a single linear
  sequence in which a node never precedes a node it depends on (a post order). A node
  is visited once: \<open>visit\<close> returns at once on a node that is already in the sequence,
  and otherwise visits the operands in order and then appends the node. The graph is
  acyclic (a node is built after its operands and never changed), so a node that is
  being visited is never met again below itself and the nodes already in the sequence
  are the visited ones.
\<close>

function visit :: "Node \<Rightarrow> Node list \<Rightarrow> Node list" where
  "visit N postOrder =
     (if N \<in> set postOrder then postOrder
      else foldl (\<lambda>p V. visit (fst V) p) postOrder (operands N) @ [N])"
  by pat_completeness auto
termination
proof (relation "measure (\<lambda>(N, p). size N)")
  show "wf (measure (\<lambda>(N :: Node, p :: Node list). size N))"
    by simp
next
  fix N :: Node and postOrder p :: "Node list" and V :: NodeValue
  have in_list: "size (fst W) < Suc (size_list (size_prod size (\<lambda>x. 0)) Ws)"
    if "W \<in> set Ws" for W :: NodeValue and Ws
    using that by (induction Ws) (auto simp: less_Suc_eq_le split: prod.splits)
  assume "V \<in> set (operands N)"
  then have "size (fst V) < size N"
    by (cases N) (auto dest: in_list)
  then show "((fst V, p), (N, postOrder)) \<in> measure (\<lambda>(N, p). size N)"
    by simp
qed

declare visit.simps [simp del]

text \<open>Lines 56-64: the variables of the graph are visited first, then its nodes.\<close>

definition getPostOrder :: "state \<Rightarrow> Node list" where
  "getPostOrder s =
     foldl (\<lambda>p N. visit N p) (foldl (\<lambda>p N. visit N p) [] (vars s)) (nodes s)"

subsection \<open>The differentiation rules (lines 66-166)\<close>

text \<open>
  Lines 120-123. \<open>reverseShuffle\<close> starts as a copy of \<open>shuffle\<close>; a write past its end
  is undefined in C++ and \<open>OutOfBounds\<close> here. The entries are \<^verbatim>\<open>unsigned\<close>; they are
  only used as indices and never computed with, so they are natural numbers.
\<close>

function reverseShuffleLoop :: "nat list \<Rightarrow> nat \<Rightarrow> nat list \<Rightarrow> error + nat list" where
  "reverseShuffleLoop shuffle i reverseShuffle =
     (if i < length shuffle then
        (if shuffle ! i < length reverseShuffle
         then reverseShuffleLoop shuffle (i + 1) (reverseShuffle[shuffle ! i := i])
         else Inl OutOfBounds)
      else Inr reverseShuffle)"
  by pat_completeness auto
termination
  by (relation "measure (\<lambda>(shuffle, i, r). length shuffle - i)") auto

declare reverseShuffleLoop.simps [simp del]

text \<open>
  Lines 154-160. The offsets are \<^verbatim>\<open>size_t\<close>: \<open>+\<close> wraps at \<open>2 ^ 64\<close>. The slice
  \<open>X\<close> is built and registered as a gradient; it is not pushed to \<open>toAppend\<close>.
\<close>

fun concatLoop ::
  "NodeValue list \<Rightarrow> NodeValue \<Rightarrow> nat \<Rightarrow> size_t list \<Rightarrow> state \<Rightarrow> error + state" where
  "concatLoop [] outputG dim' offsets s = Inr s"
| "concatLoop (N # inputs) outputG dim' offsets s =
     (let (X, s1) = new (\<lambda>a. SliceNode a ''extract'' (getType (fst N)) outputG offsets) s
      in if dim' < length offsets \<and> dim' < length (dims (getType (fst N))) then
           concatLoop inputs outputG dim'
             (offsets[dim' := offsets ! dim' + dims (getType (fst N)) ! dim'])
             (addGradient N (NodeValueOf X) s1)
         else Inl OutOfBounds)"

text \<open>
  Modelled from the spec: the \<^verbatim>\<open>getGrad\<close> methods of the eleven classes of lines 78-88
  are defined in Nodes.cpp, which is not under src/. Section 4.3: each rule receives the
  node and the gradient map, looks up the gradient of the node's output via
  \<^verbatim>\<open>getGradient\<close>, constructs the backward node and registers the resulting gradients
  for the node's inputs via \<^verbatim>\<open>addGradient\<close>. The backward node is opaque here
  (\<open>GradNode\<close>); its result \<open>i\<close> stands for the gradient of operand \<open>i\<close>. Which value a
  class registers is its own business (for an addition, section 4.3 has the output
  gradient itself): the theorems below use of a delegated rule only that it looks up the
  gradient of the result, returns one node, and registers some gradient for each operand.
\<close>

fun addGradients :: "NodeValue list \<Rightarrow> Node \<Rightarrow> nat \<Rightarrow> state \<Rightarrow> state" where
  "addGradients [] X i s = s"
| "addGradients (V # Vs) X i s = addGradients Vs X (Suc i) (addGradient V (X, i) s)"

definition getGrad :: "Node \<Rightarrow> state \<Rightarrow> error + Node \<times> state" where
  "getGrad N s =
     (case getGradient (getResult N) s of
        Inl e \<Rightarrow> Inl e
      | Inr outputG \<Rightarrow>
          (let (X, s1) = new (\<lambda>a. GradNode a (getKind N) (getName N) (operands N) outputG) s
           in Inr (X, addGradients (operands N) X 0 s1)))"

definition push_back :: "Node \<Rightarrow> state \<Rightarrow> state" where
  "push_back X s = s\<lparr>toAppend := toAppend s @ [X]\<rparr>"

text \<open>
  The body of the loop of lines 66-166 for one node \<open>N\<close>: the chain of tests on
  \<^verbatim>\<open>N->getKind()\<close> in the order of the source, each branch ending in \<^verbatim>\<open>continue\<close>.
\<close>

definition gradStep :: "Node \<Rightarrow> state \<Rightarrow> error + state" where
  "gradStep N s =
     (if getKind N = VariableNodeKind then Inr s
      else if getKind N \<in> {ConvolutionNodeKind, PoolNodeKind, FullyConnectedNodeKind,
                BatchNormalizationNodeKind, LocalResponseNormalizationNodeKind,
                SoftMaxNodeKind, RegressionNodeKind, ArithmeticNodeKind, ReluNodeKind,
                SigmoidNodeKind, TanhNodeKind} then
        (case getGrad N s of
           Inl e \<Rightarrow> Inl e
         | Inr (X, s1) \<Rightarrow> Inr (push_back X s1))
      else if getKind N = SaveNodeKind then
        (let (X, s1) = new (\<lambda>a. ZeroNode a (getName N) (getType (fst (getInput N)))) s;
             s2 = push_back X s1;
             s3 = addGradient (getInput N) (NodeValueOf X) s2
         in Inr (addGradient (getVariable N) (NodeValueOf X) s3))
      else if getKind N = ReshapeNodeKind then
        (case getGradient (getResult N) s of
           Inl e \<Rightarrow> Inl e
         | Inr outputG \<Rightarrow>
             (let inputW = getInput N;
                  (X, s1) = new (\<lambda>a. ReshapeNode a (getName N) (getType (fst inputW)) outputG
                                        (dims (getType (fst inputW)))) s;
                  s2 = push_back X s1
              in Inr (addGradient (getInput N) (NodeValueOf X) s2)))
      else if getKind N = TransposeNodeKind then
        (case getGradient (getResult N) s of
           Inl e \<Rightarrow> Inl e
         | Inr outputG \<Rightarrow>
             (let inputW = getInput N;
                  shuffle = getShuffle N
              in case reverseShuffleLoop shuffle 0 shuffle of
                   Inl e \<Rightarrow> Inl e
                 | Inr reverseShuffle \<Rightarrow>
                     (let (X, s1) = new (\<lambda>a. TransposeNode a (getName N)
                                           (getType (fst inputW)) outputG reverseShuffle) s;
                          s2 = push_back X s1
                      in Inr (addGradient (getInput N) (NodeValueOf X) s2))))
      else if getKind N = SliceNodeKind then
        (let (zero', s1) = new (\<lambda>a. ZeroNode a ''expand'' (getType (fst (getInput N)))) s
         in case getGradient (getResult N) s1 of
              Inl e \<Rightarrow> Inl e
            | Inr outputG \<Rightarrow>
                (let (insert', s2) = new (\<lambda>a. InsertTensorNode a ''insert.slice.grad''
                                           (NodeValueOf zero') outputG (getStart N)) s1;
                     s3 = push_back zero' s2;
                     s4 = push_back insert' s3
                 in Inr (addGradient (getInput N) (NodeValueOf insert') s4)))
      else if getKind N = ConcatNodeKind then
        (case getGradient (getResult N) s of
           Inl e \<Rightarrow> Inl e
         | Inr outputG \<Rightarrow>
             concatLoop (getInputs N) outputG (getDim N)
               (replicate (length (dims (getType N))) 0) s)
      else Inl UnsupportedKind)"

text \<open>The loop of lines 66-166 over the nodes it is given; the first error ends it.\<close>

fun sweep :: "Node list \<Rightarrow> state \<Rightarrow> error + state" where
  "sweep [] s = Inr s"
| "sweep (N # rest) s = (case gradStep N s of Inl e \<Rightarrow> Inl e | Inr s1 \<Rightarrow> sweep rest s1)"

subsection \<open>Update synthesis and commit (lines 168-200)\<close>

text \<open>
  Lines 169-176, for one variable \<open>V\<close>: in mode \<open>TrainDebug\<close> the gradient of \<open>V\<close>, when
  there is one, is saved under the name \<^verbatim>\<open>"_grad_" + V->getName()\<close> and the variable
  it is saved into is recorded for \<open>V\<close>.
\<close>

definition saveGradient :: "CompilationMode \<Rightarrow> Node \<Rightarrow> state \<Rightarrow> error + state" where
  "saveGradient mode V s =
     (if mode = TrainDebug \<and> hasGradient (NodeValueOf V) s then
        (case getGradient (NodeValueOf V) s of
           Inl e \<Rightarrow> Inl e
         | Inr g \<Rightarrow>
             (let nodeName = ''_grad_'' @ getName V;
                  (saveNode, s1) = createSave nodeName g s;
                  GradV = dyn_cast_Variable (fst (getOutput saveNode))
              in Inr (addGradientVariable V GradV s1)))
      else Inr s)"

text \<open>The body of the loop of lines 168-192 for one variable \<open>V\<close>.\<close>

definition updateStep ::
  "TrainingConfig \<Rightarrow> CompilationMode \<Rightarrow> Node \<Rightarrow> state \<Rightarrow> error + state" where
  "updateStep conf mode V s =
     (case saveGradient mode V s of
        Inl e \<Rightarrow> Inl e
      | Inr s1 \<Rightarrow>
          if \<not> isTraining V then Inr s1
          else
            (let Ty = (if gt_zero (momentum conf) then getType V else getVoidTy);
                 (gsum, s2) = new (newVariable ''gsum'' Ty Broadcast (Finite 0)) s1;
                 s3 = s2\<lparr>newVars := newVars s2 @ [gsum]\<rparr>
             in case getGradient (NodeValueOf V) s3 of
                  Inl e \<Rightarrow> Inl e
                | Inr g \<Rightarrow>
                    (let (X, s4) = new (\<lambda>a. SGDNode a (getName V) g (NodeValueOf V)
                                          (NodeValueOf gsum) (L1Decay conf) (L2Decay conf)
                                          (learningRate conf) (momentum conf)
                                          (batchSize conf)) s3
                     in Inr (push_back X s4))))"

text \<open>
  The loop of lines 168-192 over the variables the graph has when the loop starts. The
  variables that \<^verbatim>\<open>createSave\<close> adds meanwhile have no gradient and are not trained, so
  visiting them would change nothing.
\<close>

fun updateLoop ::
  "TrainingConfig \<Rightarrow> CompilationMode \<Rightarrow> Node list \<Rightarrow> state \<Rightarrow> error + state" where
  "updateLoop conf mode [] s = Inr s"
| "updateLoop conf mode (V # Vs) s =
     (case updateStep conf mode V s of
        Inl e \<Rightarrow> Inl e
      | Inr s1 \<Rightarrow> updateLoop conf mode Vs s1)"

text \<open>Lines 194-200: the staged nodes are added first, then the staged variables.\<close>

definition commit :: "state \<Rightarrow> state" where
  "commit s =
     foldl (\<lambda>s I. addVar I s) (foldl (\<lambda>s I. addNode I s) s (toAppend s)) (newVars s)"

text \<open>
  Lines 44-200. The pass starts with an empty gradient map and empty staging lists
  (lines 47-52); the result is the state at the return, or the fatal error.
\<close>

definition generateGradientNodes ::
  "state \<Rightarrow> TrainingConfig \<Rightarrow> CompilationMode \<Rightarrow> error + state" where
  "generateGradientNodes G conf mode =
     (let s0 = G\<lparr>gradMap := Map.empty, toAppend := [], newVars := []\<rparr>;
          postOrder = getPostOrder s0
      in case sweep (rev postOrder) s0 of
           Inl e \<Rightarrow> Inl e
         | Inr s1 \<Rightarrow>
             (case updateLoop conf mode (vars s1) s1 of
                Inl e \<Rightarrow> Inl e
              | Inr s2 \<Rightarrow> Inr (commit s2)))"

subsection \<open>Example graphs\<close>

definition ex_v :: NodeValue where
  "ex_v = NodeValueOf (Variable 0 ''W'' (TypeRef [2, 3]) Xavier (Finite 0) True)"

definition ex_g1 :: NodeValue where
  "ex_g1 = NodeValueOf (ZeroNode 1 ''g1'' (TypeRef [2, 3]))"

definition ex_g2 :: NodeValue where
  "ex_g2 = NodeValueOf (ZeroNode 2 ''g2'' (TypeRef [2, 3]))"

definition ex_empty :: state where
  "ex_empty = \<lparr>vars = [], nodes = [], grads = [], fresh = 3, heap = [],
                gradMap = Map.empty, toAppend = [], newVars = []\<rparr>"

text \<open>The sixteen kinds that lines 78-162 test for.\<close>

definition ruleKinds :: "Kind set" where
  "ruleKinds = {ConvolutionNodeKind, PoolNodeKind, FullyConnectedNodeKind,
     BatchNormalizationNodeKind, LocalResponseNormalizationNodeKind, SoftMaxNodeKind,
     RegressionNodeKind, ArithmeticNodeKind, ReluNodeKind, SigmoidNodeKind, TanhNodeKind,
     SaveNodeKind, ReshapeNodeKind, TransposeNodeKind, SliceNodeKind, ConcatNodeKind}"

definition ex_in :: Node where
  "ex_in = Variable 0 ''in'' (TypeRef [2, 3, 4]) Extern (Finite 0) False"

definition ex_tr :: Node where
  "ex_tr = TransposeNode 1 ''tr'' (TypeRef [4, 2, 3]) (NodeValueOf ex_in) [2, 0, 1]"

definition ex_tr_state :: state where
  "ex_tr_state = \<lparr>vars = [ex_in], nodes = [ex_tr], grads = [], fresh = 3, heap = [],
     gradMap = [getResult ex_tr \<mapsto> ex_g1], toAppend = [], newVars = []\<rparr>"

definition ex_zero :: Node where
  "ex_zero = ZeroNode 7 ''z'' (TypeRef [2, 3])"

definition ex_A :: Node where
  "ex_A = Variable 0 ''A'' (TypeRef [2, 3]) Xavier (Finite 0) True"

definition ex_B :: Node where
  "ex_B = Variable 4 ''B'' (TypeRef [2, 3]) Xavier (Finite 0) False"

definition ex_upd_state :: state where
  "ex_upd_state = \<lparr>vars = [ex_A, ex_B], nodes = [], grads = [], fresh = 5, heap = [],
     gradMap = [NodeValueOf ex_A \<mapsto> ex_g1, NodeValueOf ex_B \<mapsto> ex_g2],
     toAppend = [], newVars = []\<rparr>"

definition ex_conf :: TrainingConfig where
  "ex_conf = \<lparr>learningRate = Finite (1 / 100), momentum = Finite 0, L1Decay = Finite 0,
     L2Decay = Finite 0, batchSize = 8\<rparr>"

definition ex_conf_momentum :: TrainingConfig where
  "ex_conf_momentum = ex_conf\<lparr>momentum := Finite (9 / 10)\<rparr>"

definition ex_c1 :: Node where
  "ex_c1 = Variable 0 ''a'' (TypeRef [2, 3]) Xavier (Finite 0) True"

definition ex_c2 :: Node where
  "ex_c2 = Variable 1 ''b'' (TypeRef [2, 5]) Xavier (Finite 0) True"

definition ex_cc :: Node where
  "ex_cc = ConcatNode 2 ''cc'' (TypeRef [2, 8]) [NodeValueOf ex_c1, NodeValueOf ex_c2] 1"

definition ex_cc_state :: state where
  "ex_cc_state = \<lparr>vars = [ex_c1, ex_c2], nodes = [ex_cc], grads = [], fresh = 5, heap = [],
     gradMap = [getResult ex_cc \<mapsto> ex_g1], toAppend = [], newVars = []\<rparr>"

text \<open>
  What a run of the sweep may change, between two of its states: the variables, the
  staged variables and the gradient-variable table are the same; the nodes of the graph
  grow by accumulation nodes \<open>adds\<close>, the staging list by \<open>st\<close>, the free store by \<open>hs\<close>;
  every new object is staged, or one of the accumulation nodes, or a slice.
\<close>

definition sweepFrame :: "state \<Rightarrow> state \<Rightarrow> bool" where
  "sweepFrame s s1 \<longleftrightarrow>
     vars s1 = vars s \<and> newVars s1 = newVars s \<and> grads s1 = grads s
     \<and> (\<exists>adds st hs.
           nodes s1 = nodes s @ adds \<and> toAppend s1 = toAppend s @ st \<and> heap s1 = heap s @ hs
           \<and> set st \<subseteq> set hs
           \<and> (\<forall>X\<in>set adds. getKind X = ArithmeticNodeKind \<and> getName X = ''updateGrad'')
           \<and> (\<forall>X\<in>set st. getKind X \<notin> {ArithmeticNodeKind, SaveNodeKind, VariableNodeKind,
                                          SliceNodeKind})
           \<and> (\<forall>X\<in>set hs. X \<in> set st \<or> X \<in> set adds \<or> getKind X = SliceNodeKind))"

text \<open>The same for the update loop.\<close>

definition updateFrame :: "CompilationMode \<Rightarrow> state \<Rightarrow> state \<Rightarrow> bool" where
  "updateFrame mode s s1 \<longleftrightarrow>
     (\<exists>saves dests gs sg hs.
        nodes s1 = nodes s @ saves \<and> vars s1 = vars s @ dests
        \<and> newVars s1 = newVars s @ gs \<and> toAppend s1 = toAppend s @ sg
        \<and> heap s1 = heap s @ hs
        \<and> (\<forall>X\<in>set saves. getKind X = SaveNodeKind)
        \<and> (\<forall>X\<in>set dests. getKind X = VariableNodeKind)
        \<and> set hs = set saves \<union> set dests \<union> set gs \<union> set sg
        \<and> (mode \<noteq> TrainDebug \<longrightarrow> saves = [] \<and> dests = []))"

definition ex_fA :: Node where
  "ex_fA = Variable 0 ''A'' (TypeRef [2, 3]) Xavier (Finite 0) True"

definition ex_fO1 :: Node where
  "ex_fO1 = Variable 1 ''out1'' (TypeRef [6]) Extern (Finite 0) False"

definition ex_fO2 :: Node where
  "ex_fO2 = Variable 2 ''out2'' (TypeRef [3, 2]) Extern (Finite 0) False"

definition ex_fR1 :: Node where
  "ex_fR1 = ReshapeNode 3 ''r1'' (TypeRef [6]) (NodeValueOf ex_fA) [6]"

definition ex_fS1 :: Node where
  "ex_fS1 = SaveNode 4 ''s1'' (NodeValueOf ex_fR1) (NodeValueOf ex_fO1)"

definition ex_fR2 :: Node where
  "ex_fR2 = ReshapeNode 5 ''r2'' (TypeRef [3, 2]) (NodeValueOf ex_fA) [3, 2]"

definition ex_fS2 :: Node where
  "ex_fS2 = SaveNode 6 ''s2'' (NodeValueOf ex_fR2) (NodeValueOf ex_fO2)"

definition ex_fan :: state where
  "ex_fan = \<lparr>vars = [ex_fA, ex_fO1, ex_fO2], nodes = [ex_fR1, ex_fS1, ex_fR2, ex_fS2],
     grads = [], fresh = 7, heap = [], gradMap = Map.empty, toAppend = [], newVars = []\<rparr>"

definition ex_fZ2 :: Node where
  "ex_fZ2 = ZeroNode 7 ''s2'' (TypeRef [3, 2])"

definition ex_fG2 :: Node where
  "ex_fG2 = ReshapeNode 8 ''r2'' (TypeRef [2, 3]) (NodeValueOf ex_fZ2) [2, 3]"

definition ex_fZ1 :: Node where
  "ex_fZ1 = ZeroNode 9 ''s1'' (TypeRef [6])"

definition ex_fG1 :: Node where
  "ex_fG1 = ReshapeNode 10 ''r1'' (TypeRef [2, 3]) (NodeValueOf ex_fZ1) [2, 3]"

definition ex_fSum :: Node where
  "ex_fSum = ArithmeticNode 11 ''updateGrad'' (NodeValueOf ex_fG2) (NodeValueOf ex_fG1) Add"

definition ex_fGsum :: Node where
  "ex_fGsum = Variable 12 ''gsum'' (TypeRef []) Broadcast (Finite 0) True"

definition ex_fSGD :: Node where
  "ex_fSGD = SGDNode 13 ''A'' (NodeValueOf ex_fSum) (NodeValueOf ex_fA) (NodeValueOf ex_fGsum)
     (Finite 0) (Finite 0) (Finite (1 / 100)) (Finite 0) 8"

subsection \<open>Dependency order\<close>

text \<open>
  \<open>depOrdered seen xs\<close>: the list \<open>xs\<close> can be emitted after \<open>seen\<close> one node at a time,
  each node new and with all its operands already emitted.
\<close>

fun depOrdered :: "Node list \<Rightarrow> Node list \<Rightarrow> bool" where
  "depOrdered seen [] = True"
| "depOrdered seen (N # xs) =
     (N \<notin> set seen \<and> fst ` set (operands N) \<subseteq> set seen \<and> depOrdered (seen @ [N]) xs)"

text \<open>
  A graph with a node nobody consumes: the variable \<open>A\<close> and a reshape of it that is
  neither saved nor used.
\<close>

definition ex_dA :: Node where
  "ex_dA = Variable 0 ''A'' (TypeRef [2, 3]) Xavier (Finite 0) True"

definition ex_dR :: Node where
  "ex_dR = ReshapeNode 1 ''r'' (TypeRef [6]) (NodeValueOf ex_dA) [6]"

definition ex_dangling :: state where
  "ex_dangling = \<lparr>vars = [ex_dA], nodes = [ex_dR], grads = [], fresh = 2, heap = [],
     gradMap = Map.empty, toAppend = [], newVars = []\<rparr>"

subsection \<open>The index accesses of the rules, and what the rules stage\<close>

text \<open>
  \<open>inRange N\<close>: the index accesses of the rule of \<open>N\<close> are within bounds: the entries of
  the shuffle of a transpose are below its length (line 122), the axis of a concatenation
  is below the rank of its result and of each input (line 158).
\<close>

definition inRange :: "Node \<Rightarrow> bool" where
  "inRange N \<longleftrightarrow>
     (getKind N = TransposeNodeKind \<longrightarrow> (\<forall>x\<in>set (getShuffle N). x < length (getShuffle N)))
     \<and> (getKind N = ConcatNodeKind \<longrightarrow>
          getDim N < length (dims (getType N))
          \<and> (\<forall>I\<in>set (getInputs N). getDim N < length (dims (getType (fst I)))))"

text \<open>
  The classes of the nodes that the rule of a node of kind \<open>k\<close> pushes to \<^verbatim>\<open>toAppend\<close>, in
  order (lines 80, 93-95, 106-108, 126-128, 135-141; the loop of lines 153-160 pushes
  nothing).
\<close>

definition stagedKinds :: "Kind \<Rightarrow> Kind list" where
  "stagedKinds k =
     (if k = SaveNodeKind then [ZeroNodeKind]
      else if k = ReshapeNodeKind then [ReshapeNodeKind]
      else if k = TransposeNodeKind then [TransposeNodeKind]
      else if k = SliceNodeKind then [ZeroNodeKind, InsertTensorNodeKind]
      else if k = ConcatNodeKind then []
      else [GradNodeKind k])"

text \<open>
  A graph with a node of a kind without a rule: a \<open>ZeroNode\<close> whose value is saved.
\<close>

definition ex_uO :: Node where
  "ex_uO = Variable 0 ''out'' (TypeRef [2, 3]) Extern (Finite 0) False"

definition ex_uS :: Node where
  "ex_uS = SaveNode 8 ''save'' (NodeValueOf ex_zero) (NodeValueOf ex_uO)"

definition ex_unsup :: state where
  "ex_unsup = \<lparr>vars = [ex_uO], nodes = [ex_zero, ex_uS], grads = [], fresh = 9, heap = [],
     gradMap = Map.empty, toAppend = [], newVars = []\<rparr>"

subsection \<open>Lookups and consumers\<close>

text \<open>
  \<open>looksUp N\<close>: the rule of \<open>N\<close> calls \<^verbatim>\<open>getGradient\<close> on the result of \<open>N\<close> (lines 102, 115,
  137, 149, and the delegated rules; the rule of \<open>Save\<close>, lines 90-97, does not).
  \<open>consumed Ns N\<close>: some node of \<open>Ns\<close> has the result of \<open>N\<close> among its operands.
\<close>

definition looksUp :: "Node \<Rightarrow> bool" where
  "looksUp N \<longleftrightarrow> getKind N \<in> ruleKinds \<and> getKind N \<noteq> SaveNodeKind"

definition consumed :: "Node list \<Rightarrow> Node \<Rightarrow> bool" where
  "consumed Ns N \<longleftrightarrow> (\<exists>M\<in>set Ns. getResult N \<in> set (operands M))"

section \<open>Properties\<close>

subsection \<open>The gradient map\<close>

lemma addGradient_None:
  "gradMap s v = None \<Longrightarrow> addGradient v g s = s\<lparr>gradMap := (gradMap s)(v \<mapsto> g)\<rparr>"
  by (simp add: addGradient_def)

lemma addGradient_Some:
  "gradMap s v = Some c \<Longrightarrow>
   addGradient v g s =
     s\<lparr>fresh := Suc (fresh s),
       heap := heap s @ [ArithmeticNode (fresh s) ''updateGrad'' c g Add],
       nodes := nodes s @ [ArithmeticNode (fresh s) ''updateGrad'' c g Add],
       gradMap := (gradMap s)(v \<mapsto> NodeValueOf (ArithmeticNode (fresh s) ''updateGrad'' c g Add))\<rparr>"
  by (simp add: addGradient_def createArithmetic_def new_def addNode_def)

text \<open>
  C2. \<open>addGradient v g\<close> registers \<open>g\<close> itself when \<open>v\<close> has no gradient; when \<open>v\<close> has
  the gradient \<open>c\<close> it registers a new \<open>Add\<close> node over \<open>c\<close> and \<open>g\<close>. After two calls
  with \<open>g1\<close> and \<open>g2\<close> on a fresh key the registered gradient is the \<open>Add\<close> node over
  \<open>g1\<close> and \<open>g2\<close>, in the order of the calls, whichever comes first: both contributions
  are operands of the sum. The entries of the other keys are untouched.
\<close>

theorem addGradient_accumulates:
  "(gradMap s v = None \<longrightarrow> gradMap (addGradient v g s) v = Some g)
   \<and> (\<forall>c. gradMap s v = Some c \<longrightarrow>
         gradMap (addGradient v g s) v
           = Some (NodeValueOf (ArithmeticNode (fresh s) ''updateGrad'' c g Add)))
   \<and> (gradMap s v = None \<longrightarrow>
         gradMap (addGradient v g2 (addGradient v g1 s)) v
           = Some (NodeValueOf (ArithmeticNode (fresh s) ''updateGrad'' g1 g2 Add))
       \<and> gradMap (addGradient v g1 (addGradient v g2 s)) v
           = Some (NodeValueOf (ArithmeticNode (fresh s) ''updateGrad'' g2 g1 Add)))
   \<and> (\<forall>w. w \<noteq> v \<longrightarrow> gradMap (addGradient v g s) w = gradMap s w)"
  by (cases "gradMap s v") (simp_all add: addGradient_None addGradient_Some)

theorem addGradient_accumulates_witness:
  "gradMap ex_empty ex_v = None
   \<and> gradMap (addGradient ex_v ex_g1 ex_empty) ex_v = Some ex_g1
   \<and> gradMap (addGradient ex_v ex_g2 (addGradient ex_v ex_g1 ex_empty)) ex_v
       = Some (NodeValueOf (ArithmeticNode 3 ''updateGrad'' ex_g1 ex_g2 Add))
   \<and> gradMap (addGradient ex_v ex_g1 (addGradient ex_v ex_g2 ex_empty)) ex_v
       = Some (NodeValueOf (ArithmeticNode 3 ''updateGrad'' ex_g2 ex_g1 Add))"
  using addGradient_accumulates [of ex_empty ex_v ex_g1 ex_g1 ex_g2]
    addGradient_accumulates [of ex_empty ex_v ex_g2 ex_g1 ex_g2]
  by (simp add: ex_empty_def)

subsection \<open>The compilation mode\<close>

lemma updateStep_not_debug:
  "mode \<noteq> TrainDebug \<Longrightarrow> updateStep conf mode V s = updateStep conf Train V s"
  by (simp add: updateStep_def saveGradient_def)

lemma updateLoop_not_debug:
  "mode \<noteq> TrainDebug \<Longrightarrow> updateLoop conf mode Vs s = updateLoop conf Train Vs s"
  by (induction Vs arbitrary: s) (simp_all add: updateStep_not_debug [of mode] split: sum.splits)

text \<open>
  C10. The pass run in mode \<open>Infer\<close> returns exactly what it returns in mode \<open>Train\<close>,
  on every graph and configuration: the mode is only compared with \<open>TrainDebug\<close>
  (line 170), so the backward nodes, the update nodes and the momentum accumulators are
  built in inference mode too.
\<close>

theorem inference_mode_same_as_train:
  "generateGradientNodes G conf Infer = generateGradientNodes G conf Train"
proof -
  have same: "updateLoop conf Infer Vs s = updateLoop conf Train Vs s" for Vs s
    by (rule updateLoop_not_debug) simp
  show ?thesis
    unfolding generateGradientNodes_def same by (rule refl)
qed

subsection \<open>The dispatch on the kind of a node\<close>

lemma getGradient_error: "getGradient v s = Inl e \<Longrightarrow> e = MissingGradient"
  by (auto simp: getGradient_def split: option.splits)

lemma getGrad_error: "getGrad N s = Inl e \<Longrightarrow> e = MissingGradient"
  by (auto simp: getGrad_def split: sum.splits prod.splits dest: getGradient_error)

lemma reverseShuffleLoop_error:
  "reverseShuffleLoop shuffle i rs = Inl e \<Longrightarrow> e = OutOfBounds"
proof (induction shuffle i rs rule: reverseShuffleLoop.induct)
  case (1 shuffle i rs)
  then show ?case
    by (subst (asm) (2) reverseShuffleLoop.simps) (auto split: if_splits)
qed

lemma concatLoop_error:
  "concatLoop inputs outputG d offsets s = Inl e \<Longrightarrow> e = OutOfBounds"
proof (induction inputs arbitrary: offsets s)
  case Nil
  then show ?case by simp
next
  case (Cons N inputs)
  then show ?case
    by (auto simp: Let_def split: prod.splits if_splits)
qed

lemma gradStep_rule_kind:
  assumes "getKind N \<in> ruleKinds"
  shows "gradStep N s \<noteq> Inl UnsupportedKind"
proof
  assume bad: "gradStep N s = Inl UnsupportedKind"
  from assms consider
      (deleg) "getKind N \<in> {ConvolutionNodeKind, PoolNodeKind, FullyConnectedNodeKind,
                BatchNormalizationNodeKind, LocalResponseNormalizationNodeKind,
                SoftMaxNodeKind, RegressionNodeKind, ArithmeticNodeKind, ReluNodeKind,
                SigmoidNodeKind, TanhNodeKind}"
    | (save) "getKind N = SaveNodeKind"
    | (reshape) "getKind N = ReshapeNodeKind"
    | (transpose) "getKind N = TransposeNodeKind"
    | (slice) "getKind N = SliceNodeKind"
    | (concat) "getKind N = ConcatNodeKind"
    unfolding ruleKinds_def by blast
  then show False
  proof cases
    case deleg
    with bad show False
      by (auto simp: gradStep_def split: sum.splits prod.splits dest: getGrad_error)
  next
    case save
    with bad show False
      by (simp add: gradStep_def Let_def split: prod.splits)
  next
    case reshape
    with bad show False
      by (auto simp: gradStep_def Let_def split: sum.splits prod.splits dest: getGradient_error)
  next
    case transpose
    with bad show False
      by (auto simp: gradStep_def Let_def split: sum.splits prod.splits
          dest: getGradient_error reverseShuffleLoop_error)
  next
    case slice
    with bad show False
      by (auto simp: gradStep_def Let_def split: sum.splits prod.splits dest: getGradient_error)
  next
    case concat
    with bad show False
      by (auto simp: gradStep_def Let_def split: sum.splits prod.splits
          dest: getGradient_error concatLoop_error)
  qed
qed

lemma gradStep_other_kind:
  assumes "getKind N \<notin> ruleKinds" and "getKind N \<noteq> VariableNodeKind"
  shows "gradStep N s = Inl UnsupportedKind"
  using assms by (simp add: gradStep_def ruleKinds_def)

lemma sweep_append:
  "sweep (xs @ ys) s = (case sweep xs s of Inl e \<Rightarrow> Inl e | Inr s1 \<Rightarrow> sweep ys s1)"
  by (induction xs arbitrary: s) (auto split: sum.splits)

lemma gradStep_Variable: "getKind N = VariableNodeKind \<Longrightarrow> gradStep N s = Inr s"
  by (simp add: gradStep_def)

lemma sweep_rule_kinds:
  "\<forall>N\<in>set Ns. getKind N \<in> insert VariableNodeKind ruleKinds \<Longrightarrow>
   sweep Ns s \<noteq> Inl UnsupportedKind"
proof (induction Ns arbitrary: s)
  case Nil
  show ?case by simp
next
  case (Cons N Ns)
  have "gradStep N s \<noteq> Inl UnsupportedKind"
    using Cons.prems gradStep_rule_kind [of N s] gradStep_Variable [of N s] by auto
  moreover have "sweep Ns s1 \<noteq> Inl UnsupportedKind" for s1
    using Cons.IH Cons.prems by simp
  ultimately show ?case
    by (auto split: sum.splits)
qed

subsection \<open>The transpose rule\<close>

lemma reverseShuffleLoop_inverse:
  assumes "distinct shuffle" and "\<forall>x\<in>set shuffle. x < length shuffle"
    and "length rs = length shuffle" and "\<forall>j<i. rs ! (shuffle ! j) = j"
    and "i \<le> length shuffle"
  shows "\<exists>rs'. reverseShuffleLoop shuffle i rs = Inr rs' \<and> length rs' = length shuffle
           \<and> (\<forall>j<length shuffle. rs' ! (shuffle ! j) = j)"
  using assms
proof (induction shuffle i rs rule: reverseShuffleLoop.induct)
  case (1 shuffle i rs)
  show ?case
  proof (cases "i < length shuffle")
    case False
    with "1.prems" have "i = length shuffle" by simp
    with "1.prems" show ?thesis
      by (subst reverseShuffleLoop.simps) simp
  next
    case True
    with "1.prems" have inb: "shuffle ! i < length rs" by simp
    let ?rs = "rs[shuffle ! i := i]"
    have inv: "\<forall>j<i + 1. ?rs ! (shuffle ! j) = j"
    proof (intro allI impI)
      fix j assume "j < i + 1"
      show "?rs ! (shuffle ! j) = j"
      proof (cases "j = i")
        case True
        with inb show ?thesis by simp
      next
        case False
        with \<open>j < i + 1\<close> have "j < i" by simp
        with True \<open>distinct shuffle\<close> have "shuffle ! j \<noteq> shuffle ! i"
          by (simp add: nth_eq_iff_index_eq)
        with \<open>j < i\<close> "1.prems" show ?thesis by simp
      qed
    qed
    have "\<exists>rs'. reverseShuffleLoop shuffle (i + 1) ?rs = Inr rs' \<and> length rs' = length shuffle
           \<and> (\<forall>j<length shuffle. rs' ! (shuffle ! j) = j)"
      using "1.IH" [OF True inb] "1.prems" True inv by simp
    with True inb show ?thesis
      by (subst reverseShuffleLoop.simps) simp
  qed
qed

text \<open>
  C7. For a transpose node whose shuffle is a permutation of the axis indices and whose
  result has the registered gradient \<open>outputG\<close>, the loop of lines 120-123 returns a
  \<open>reverseShuffle\<close> with \<open>reverseShuffle ! (shuffle ! i) = i\<close> for every axis \<open>i\<close>, and the
  step builds the transpose of \<open>outputG\<close> by \<open>reverseShuffle\<close>, typed as the input, stages
  it and registers it as the gradient of the input.
\<close>

theorem transpose_rule_inverse:
  assumes "getKind N = TransposeNodeKind"
    and "gradMap s (getResult N) = Some outputG"
    and "distinct (getShuffle N)"
    and "\<forall>x\<in>set (getShuffle N). x < length (getShuffle N)"
  shows "\<exists>reverseShuffle.
           reverseShuffleLoop (getShuffle N) 0 (getShuffle N) = Inr reverseShuffle
           \<and> length reverseShuffle = length (getShuffle N)
           \<and> (\<forall>i<length (getShuffle N). reverseShuffle ! (getShuffle N ! i) = i)
           \<and> gradStep N s =
               Inr (addGradient (getInput N)
                      (NodeValueOf (TransposeNode (fresh s) (getName N)
                         (getType (fst (getInput N))) outputG reverseShuffle))
                      (push_back (TransposeNode (fresh s) (getName N)
                         (getType (fst (getInput N))) outputG reverseShuffle)
                        (snd (new (\<lambda>a. TransposeNode a (getName N)
                           (getType (fst (getInput N))) outputG reverseShuffle) s))))"
proof -
  obtain rs where rs: "reverseShuffleLoop (getShuffle N) 0 (getShuffle N) = Inr rs"
      "length rs = length (getShuffle N)"
      "\<forall>i<length (getShuffle N). rs ! (getShuffle N ! i) = i"
    using reverseShuffleLoop_inverse [of "getShuffle N" "getShuffle N" 0] assms(3,4)
    by auto
  have "gradStep N s =
      Inr (addGradient (getInput N)
             (NodeValueOf (TransposeNode (fresh s) (getName N)
                (getType (fst (getInput N))) outputG rs))
             (push_back (TransposeNode (fresh s) (getName N)
                (getType (fst (getInput N))) outputG rs)
               (snd (new (\<lambda>a. TransposeNode a (getName N)
                  (getType (fst (getInput N))) outputG rs) s))))"
    using assms(1,2) rs(1)
    by (simp add: gradStep_def getGradient_def Let_def new_def)
  with rs show ?thesis by blast
qed

theorem transpose_rule_inverse_witness:
  "getKind ex_tr = TransposeNodeKind
   \<and> gradMap ex_tr_state (getResult ex_tr) = Some ex_g1
   \<and> distinct (getShuffle ex_tr)
   \<and> getShuffle ex_tr = [2, 0, 1]
   \<and> (\<exists>s'. gradStep ex_tr ex_tr_state = Inr s'
          \<and> toAppend s' = [TransposeNode 3 ''tr'' (TypeRef [2, 3, 4]) ex_g1 [1, 2, 0]])"
proof -
  have k: "getKind ex_tr = TransposeNodeKind"
    by (simp add: ex_tr_def)
  have g: "gradMap ex_tr_state (getResult ex_tr) = Some ex_g1"
    by (simp add: ex_tr_state_def)
  have sh: "getShuffle ex_tr = [2, 0, 1]"
    by (simp add: ex_tr_def)
  have d: "distinct (getShuffle ex_tr)" and b: "\<forall>x\<in>set (getShuffle ex_tr). x < length (getShuffle ex_tr)"
    by (simp_all add: sh)
  obtain rs where loop: "reverseShuffleLoop (getShuffle ex_tr) 0 (getShuffle ex_tr) = Inr rs"
    and step: "gradStep ex_tr ex_tr_state =
       Inr (addGradient (getInput ex_tr)
              (NodeValueOf (TransposeNode (fresh ex_tr_state) (getName ex_tr)
                 (getType (fst (getInput ex_tr))) ex_g1 rs))
              (push_back (TransposeNode (fresh ex_tr_state) (getName ex_tr)
                 (getType (fst (getInput ex_tr))) ex_g1 rs)
                (snd (new (\<lambda>a. TransposeNode a (getName ex_tr)
                   (getType (fst (getInput ex_tr))) ex_g1 rs) ex_tr_state))))"
    using transpose_rule_inverse [OF k g d b] by blast
  have "reverseShuffleLoop [2, 0, 1] 0 [2, 0, 1] = Inr [1, 2, 0]"
    by (simp add: reverseShuffleLoop.simps)
  with loop have "rs = [1, 2, 0]"
    by (simp add: sh)
  with step have "\<exists>s'. gradStep ex_tr ex_tr_state = Inr s'
      \<and> toAppend s' = [TransposeNode 3 ''tr'' (TypeRef [2, 3, 4]) ex_g1 [1, 2, 0]]"
    by (simp add: addGradient_def push_back_def new_def ex_tr_def ex_in_def ex_tr_state_def)
  with k g d sh show ?thesis
    by simp
qed

subsection \<open>Update synthesis\<close>

lemma saveGradient_snap:
  assumes "mode = TrainDebug" and "gradMap s (NodeValueOf V) = Some g"
  shows "saveGradient mode V s =
    Inr (s\<lparr>fresh := Suc (Suc (fresh s)),
           heap := heap s @ [newVariable (''_grad_'' @ getName V) (getType (fst g)) Extern (Finite 0) (fresh s),
                            SaveNode (Suc (fresh s)) (''_grad_'' @ getName V) g
                              (NodeValueOf (newVariable (''_grad_'' @ getName V) (getType (fst g)) Extern (Finite 0) (fresh s)))],
           vars := vars s @ [newVariable (''_grad_'' @ getName V) (getType (fst g)) Extern (Finite 0) (fresh s)],
           nodes := nodes s @ [SaveNode (Suc (fresh s)) (''_grad_'' @ getName V) g
                              (NodeValueOf (newVariable (''_grad_'' @ getName V) (getType (fst g)) Extern (Finite 0) (fresh s)))],
           grads := grads s @ [(V, Some (newVariable (''_grad_'' @ getName V) (getType (fst g)) Extern (Finite 0) (fresh s)))]\<rparr>)"
  using assms
  by (simp add: saveGradient_def hasGradient_def getGradient_def createSave_def new_def
      addVar_def addNode_def addGradientVariable_def Let_def newVariable_def)

lemma saveGradient_skip:
  assumes "mode \<noteq> TrainDebug \<or> gradMap s (NodeValueOf V) = None"
  shows "saveGradient mode V s = Inr s"
  using assms by (auto simp: saveGradient_def hasGradient_def)

lemma saveGradient_frame:
  assumes "saveGradient mode V s = Inr s1"
  shows "gradMap s1 = gradMap s \<and> newVars s1 = newVars s \<and> toAppend s1 = toAppend s
         \<and> (\<exists>hs. heap s1 = heap s @ hs \<and> (\<forall>X\<in>set hs. getKind X \<noteq> SGDNodeKind))"
proof (cases "mode = TrainDebug \<and> gradMap s (NodeValueOf V) \<noteq> None")
  case True
  then obtain g where "gradMap s (NodeValueOf V) = Some g" by auto
  with True assms show ?thesis
    by (auto simp: saveGradient_snap newVariable_def)
next
  case False
  then have "saveGradient mode V s = Inr s"
    by (intro saveGradient_skip) blast
  with assms show ?thesis
    by simp
qed

lemma saveGradient_total: "\<exists>s1. saveGradient mode V s = Inr s1"
proof (cases "mode = TrainDebug \<and> gradMap s (NodeValueOf V) \<noteq> None")
  case True
  then obtain g where "gradMap s (NodeValueOf V) = Some g" by auto
  with True show ?thesis
    by (simp add: saveGradient_snap)
next
  case False
  then have "saveGradient mode V s = Inr s"
    by (intro saveGradient_skip) blast
  then show ?thesis by simp
qed

lemma updateStep_untrained:
  assumes "\<not> isTraining V"
  shows "updateStep conf mode V s = saveGradient mode V s"
  using assms saveGradient_total [of mode V s] by (auto simp: updateStep_def)

lemma updateStep_trained:
  assumes "isTraining V" and "saveGradient mode V s = Inr s1"
    and "gradMap s (NodeValueOf V) = Some g"
  shows "updateStep conf mode V s =
    Inr (s1\<lparr>fresh := Suc (Suc (fresh s1)),
            heap := heap s1 @
              [newVariable ''gsum'' (if gt_zero (momentum conf) then getType V else getVoidTy)
                 Broadcast (Finite 0) (fresh s1),
               SGDNode (Suc (fresh s1)) (getName V) g (NodeValueOf V)
                 (NodeValueOf (newVariable ''gsum''
                    (if gt_zero (momentum conf) then getType V else getVoidTy)
                    Broadcast (Finite 0) (fresh s1)))
                 (L1Decay conf) (L2Decay conf) (learningRate conf) (momentum conf)
                 (batchSize conf)],
            newVars := newVars s1 @
              [newVariable ''gsum'' (if gt_zero (momentum conf) then getType V else getVoidTy)
                 Broadcast (Finite 0) (fresh s1)],
            toAppend := toAppend s1 @
              [SGDNode (Suc (fresh s1)) (getName V) g (NodeValueOf V)
                 (NodeValueOf (newVariable ''gsum''
                    (if gt_zero (momentum conf) then getType V else getVoidTy)
                    Broadcast (Finite 0) (fresh s1)))
                 (L1Decay conf) (L2Decay conf) (learningRate conf) (momentum conf)
                 (batchSize conf)]\<rparr>)"
proof -
  have "gradMap s1 (NodeValueOf V) = Some g"
    using assms(2,3) saveGradient_frame [of mode V s s1] by simp
  with assms(1,2) show ?thesis
    by (simp add: updateStep_def getGradient_def new_def push_back_def Let_def)
qed

lemma updateStep_missing:
  assumes "isTraining V" and "gradMap s (NodeValueOf V) = None"
  shows "updateStep conf mode V s = Inl MissingGradient"
proof -
  have "saveGradient mode V s = Inr s"
    using assms(2) by (simp add: saveGradient_skip)
  with assms show ?thesis
    by (simp add: updateStep_def getGradient_def new_def Let_def)
qed

lemma updateStep_graph:
  assumes "updateStep conf mode V s = Inr s2"
  shows "\<exists>s1. saveGradient mode V s = Inr s1 \<and> vars s2 = vars s1 \<and> nodes s2 = nodes s1
           \<and> grads s2 = grads s1 \<and> gradMap s2 = gradMap s"
proof -
  obtain s1 where s1: "saveGradient mode V s = Inr s1"
    using saveGradient_total by blast
  then have gm: "gradMap s1 = gradMap s"
    using saveGradient_frame by blast
  show ?thesis
  proof (cases "isTraining V")
    case False
    with assms s1 gm show ?thesis
      by (simp add: updateStep_untrained)
  next
    case True
    show ?thesis
    proof (cases "gradMap s (NodeValueOf V)")
      case None
      with True assms show ?thesis
        by (simp add: updateStep_missing)
    next
      case (Some g)
      with True assms s1 gm show ?thesis
        by (auto simp: updateStep_trained [OF True s1 Some])
    qed
  qed
qed

lemma updateLoop_training:
  assumes "\<forall>V\<in>set Vs. isTraining V \<longrightarrow> gradMap s (NodeValueOf V) \<noteq> None"
  shows "\<exists>s' gsums sgds hs.
      updateLoop conf mode Vs s = Inr s' \<and> gradMap s' = gradMap s
      \<and> newVars s' = newVars s @ gsums \<and> toAppend s' = toAppend s @ sgds
      \<and> heap s' = heap s @ hs \<and> filter (\<lambda>X. getKind X = SGDNodeKind) hs = sgds
      \<and> list_all2 (\<lambda>V g. \<exists>a. g = newVariable ''gsum''
            (if gt_zero (momentum conf) then getType V else getVoidTy) Broadcast (Finite 0) a)
          (filter isTraining Vs) gsums
      \<and> list_all2 (\<lambda>(V, g) X. \<exists>a. X = SGDNode a (getName V) (the (gradMap s (NodeValueOf V)))
            (NodeValueOf V) (NodeValueOf g) (L1Decay conf) (L2Decay conf) (learningRate conf)
            (momentum conf) (batchSize conf))
          (zip (filter isTraining Vs) gsums) sgds"
  using assms
proof (induction Vs arbitrary: s)
  case Nil
  show ?case by simp
next
  case (Cons V Vs)
  obtain s1 hs0 where s1: "saveGradient mode V s = Inr s1"
    and fr: "gradMap s1 = gradMap s" "newVars s1 = newVars s" "toAppend s1 = toAppend s"
      "heap s1 = heap s @ hs0" "\<forall>X\<in>set hs0. getKind X \<noteq> SGDNodeKind"
    using saveGradient_total [of mode V s] saveGradient_frame [of mode V s] by blast
  from fr(5) have nosgd: "filter (\<lambda>X. getKind X = SGDNodeKind) hs0 = []"
    by (simp add: filter_empty_conv)
  show ?case
  proof (cases "isTraining V")
    case False
    have pre: "\<forall>W\<in>set Vs. isTraining W \<longrightarrow> gradMap s1 (NodeValueOf W) \<noteq> None"
      using Cons.prems fr(1) by simp
    from Cons.IH [OF pre] obtain s' gsums sgds hs where
      r: "updateLoop conf mode Vs s1 = Inr s'" "gradMap s' = gradMap s1"
        "newVars s' = newVars s1 @ gsums" "toAppend s' = toAppend s1 @ sgds"
        "heap s' = heap s1 @ hs" "filter (\<lambda>X. getKind X = SGDNodeKind) hs = sgds"
        "list_all2 (\<lambda>V g. \<exists>a. g = newVariable ''gsum''
            (if gt_zero (momentum conf) then getType V else getVoidTy) Broadcast (Finite 0) a)
          (filter isTraining Vs) gsums"
        "list_all2 (\<lambda>(V, g) X. \<exists>a. X = SGDNode a (getName V) (the (gradMap s1 (NodeValueOf V)))
            (NodeValueOf V) (NodeValueOf g) (L1Decay conf) (L2Decay conf) (learningRate conf)
            (momentum conf) (batchSize conf))
          (zip (filter isTraining Vs) gsums) sgds"
      by blast
    have "updateLoop conf mode (V # Vs) s = Inr s'"
      using False s1 r(1) by (simp add: updateStep_untrained)
    moreover have "heap s' = heap s @ (hs0 @ hs)"
      using r(5) fr(4) by simp
    moreover have "filter (\<lambda>X. getKind X = SGDNodeKind) (hs0 @ hs) = sgds"
      using nosgd r(6) by simp
    ultimately show ?thesis
      using False r(2,3,4,7,8) fr(1,2,3) by (intro exI [of _ s'] exI [of _ gsums] exI [of _ sgds] exI [of _ "hs0 @ hs"]) simp
  next
    case True
    then obtain g where g: "gradMap s (NodeValueOf V) = Some g"
      using Cons.prems by auto
    let ?gs = "newVariable ''gsum'' (if gt_zero (momentum conf) then getType V else getVoidTy)
                 Broadcast (Finite 0) (fresh s1)"
    let ?X = "SGDNode (Suc (fresh s1)) (getName V) g (NodeValueOf V) (NodeValueOf ?gs)
                 (L1Decay conf) (L2Decay conf) (learningRate conf) (momentum conf)
                 (batchSize conf)"
    let ?s2 = "s1\<lparr>fresh := Suc (Suc (fresh s1)), heap := heap s1 @ [?gs, ?X],
                 newVars := newVars s1 @ [?gs], toAppend := toAppend s1 @ [?X]\<rparr>"
    have step: "updateStep conf mode V s = Inr ?s2"
      by (rule updateStep_trained [OF True s1 g])
    have pre: "\<forall>W\<in>set Vs. isTraining W \<longrightarrow> gradMap ?s2 (NodeValueOf W) \<noteq> None"
      using Cons.prems fr(1) by simp
    from Cons.IH [OF pre] obtain s' gsums sgds hs where
      r: "updateLoop conf mode Vs ?s2 = Inr s'" "gradMap s' = gradMap ?s2"
        "newVars s' = newVars ?s2 @ gsums" "toAppend s' = toAppend ?s2 @ sgds"
        "heap s' = heap ?s2 @ hs" "filter (\<lambda>X. getKind X = SGDNodeKind) hs = sgds"
        "list_all2 (\<lambda>V g. \<exists>a. g = newVariable ''gsum''
            (if gt_zero (momentum conf) then getType V else getVoidTy) Broadcast (Finite 0) a)
          (filter isTraining Vs) gsums"
        "list_all2 (\<lambda>(V, g) X. \<exists>a. X = SGDNode a (getName V) (the (gradMap ?s2 (NodeValueOf V)))
            (NodeValueOf V) (NodeValueOf g) (L1Decay conf) (L2Decay conf) (learningRate conf)
            (momentum conf) (batchSize conf))
          (zip (filter isTraining Vs) gsums) sgds"
      by blast
    have "updateLoop conf mode (V # Vs) s = Inr s'"
      using step r(1) by simp
    moreover have "heap s' = heap s @ (hs0 @ [?gs, ?X] @ hs)"
      using r(5) fr(4) by simp
    moreover have "filter (\<lambda>X. getKind X = SGDNodeKind) (hs0 @ [?gs, ?X] @ hs) = ?X # sgds"
      using nosgd r(6) by (simp add: newVariable_def)
    moreover have "newVars s' = newVars s @ (?gs # gsums)"
      using r(3) fr(2) by simp
    moreover have "toAppend s' = toAppend s @ (?X # sgds)"
      using r(4) fr(3) by simp
    moreover have "gradMap s' = gradMap s"
      using r(2) fr(1) by simp
    ultimately show ?thesis
      using True r(7,8) fr(1) g
      by (intro exI [of _ s'] exI [of _ "?gs # gsums"] exI [of _ "?X # sgds"]
          exI [of _ "hs0 @ [?gs, ?X] @ hs"]) auto
  qed
qed

lemma updateLoop_snapshots:
  assumes "updateLoop conf TrainDebug Vs s = Inr s'"
  shows "\<exists>dests saves.
      vars s' = vars s @ dests \<and> nodes s' = nodes s @ saves
      \<and> grads s' = grads s @
            map2 (\<lambda>V d. (V, Some d)) (filter (\<lambda>V. gradMap s (NodeValueOf V) \<noteq> None) Vs) dests
      \<and> list_all2 (\<lambda>V d. \<exists>a. d = newVariable (''_grad_'' @ getName V)
            (getType (fst (the (gradMap s (NodeValueOf V))))) Extern (Finite 0) a)
          (filter (\<lambda>V. gradMap s (NodeValueOf V) \<noteq> None) Vs) dests
      \<and> list_all2 (\<lambda>(V, d) S. \<exists>a. S = SaveNode a (''_grad_'' @ getName V)
            (the (gradMap s (NodeValueOf V))) (NodeValueOf d))
          (zip (filter (\<lambda>V. gradMap s (NodeValueOf V) \<noteq> None) Vs) dests) saves"
  using assms
proof (induction Vs arbitrary: s)
  case Nil
  then show ?case by simp
next
  case (Cons V Vs)
  from Cons.prems obtain s2 where s2: "updateStep conf TrainDebug V s = Inr s2"
    and rest: "updateLoop conf TrainDebug Vs s2 = Inr s'"
    by (auto split: sum.splits)
  from updateStep_graph [OF s2] obtain s1 where s1: "saveGradient TrainDebug V s = Inr s1"
    and eq: "vars s2 = vars s1" "nodes s2 = nodes s1" "grads s2 = grads s1"
      "gradMap s2 = gradMap s"
    by blast
  from Cons.IH [OF rest] obtain dests saves where
    r: "vars s' = vars s2 @ dests" "nodes s' = nodes s2 @ saves"
      "grads s' = grads s2 @
            map2 (\<lambda>V d. (V, Some d)) (filter (\<lambda>V. gradMap s2 (NodeValueOf V) \<noteq> None) Vs) dests"
      "list_all2 (\<lambda>V d. \<exists>a. d = newVariable (''_grad_'' @ getName V)
            (getType (fst (the (gradMap s2 (NodeValueOf V))))) Extern (Finite 0) a)
          (filter (\<lambda>V. gradMap s2 (NodeValueOf V) \<noteq> None) Vs) dests"
      "list_all2 (\<lambda>(V, d) S. \<exists>a. S = SaveNode a (''_grad_'' @ getName V)
            (the (gradMap s2 (NodeValueOf V))) (NodeValueOf d))
          (zip (filter (\<lambda>V. gradMap s2 (NodeValueOf V) \<noteq> None) Vs) dests) saves"
    by blast
  show ?case
  proof (cases "gradMap s (NodeValueOf V)")
    case None
    then have "saveGradient TrainDebug V s = Inr s"
      by (simp add: saveGradient_skip)
    with s1 have "s1 = s" by simp
    with None r eq show ?thesis
      by (intro exI [of _ dests] exI [of _ saves]) simp
  next
    case (Some g)
    let ?d = "newVariable (''_grad_'' @ getName V) (getType (fst g)) Extern (Finite 0) (fresh s)"
    let ?S = "SaveNode (Suc (fresh s)) (''_grad_'' @ getName V) g (NodeValueOf ?d)"
    have "vars s1 = vars s @ [?d]" "nodes s1 = nodes s @ [?S]"
      "grads s1 = grads s @ [(V, Some ?d)]"
      using s1 saveGradient_snap [OF refl Some] by auto
    with Some r eq show ?thesis
      by (intro exI [of _ "?d # dests"] exI [of _ "?S # saves"]) auto
  qed
qed

lemma updateLoop_no_snapshots:
  assumes "updateLoop conf mode Vs s = Inr s'" and "mode \<noteq> TrainDebug"
  shows "vars s' = vars s \<and> nodes s' = nodes s \<and> grads s' = grads s"
  using assms(1)
proof (induction Vs arbitrary: s)
  case Nil
  then show ?case by simp
next
  case (Cons V Vs)
  from Cons.prems obtain s2 where s2: "updateStep conf mode V s = Inr s2"
    and rest: "updateLoop conf mode Vs s2 = Inr s'"
    by (auto split: sum.splits)
  from updateStep_graph [OF s2] obtain s1 where s1: "saveGradient mode V s = Inr s1"
    and eq: "vars s2 = vars s1" "nodes s2 = nodes s1" "grads s2 = grads s1"
    by blast
  have "saveGradient mode V s = Inr s"
    using assms(2) by (simp add: saveGradient_skip)
  with s1 have "s1 = s" by simp
  with Cons.IH [OF rest] eq show ?case by simp
qed

text \<open>
  C5. When every trainable variable of the list has a registered gradient, the update
  loop returns, and the update nodes it allocates are exactly the nodes \<open>sgds\<close> it stages:
  one for each trainable variable, in order, bound to the name of the variable, its
  registered gradient, the variable, its momentum accumulator (the variable staged at
  the same position) and the five values of the configuration. A variable that is not
  trainable gets none, and is no error.
\<close>

theorem update_coverage:
  assumes "\<forall>V\<in>set Vs. isTraining V \<longrightarrow> gradMap s (NodeValueOf V) \<noteq> None"
  shows "\<exists>s' gsums sgds hs.
      updateLoop conf mode Vs s = Inr s'
      \<and> newVars s' = newVars s @ gsums \<and> toAppend s' = toAppend s @ sgds
      \<and> heap s' = heap s @ hs \<and> filter (\<lambda>X. getKind X = SGDNodeKind) hs = sgds
      \<and> length gsums = length (filter isTraining Vs)
      \<and> length sgds = length (filter isTraining Vs)
      \<and> (\<forall>k<length (filter isTraining Vs).
            \<exists>a. sgds ! k =
              SGDNode a (getName (filter isTraining Vs ! k))
                (the (gradMap s (NodeValueOf (filter isTraining Vs ! k))))
                (NodeValueOf (filter isTraining Vs ! k)) (NodeValueOf (gsums ! k))
                (L1Decay conf) (L2Decay conf) (learningRate conf) (momentum conf)
                (batchSize conf))"
proof -
  from updateLoop_training [OF assms, of conf mode] obtain s' gsums sgds hs where
    r: "updateLoop conf mode Vs s = Inr s'"
      "newVars s' = newVars s @ gsums" "toAppend s' = toAppend s @ sgds"
      "heap s' = heap s @ hs" "filter (\<lambda>X. getKind X = SGDNodeKind) hs = sgds"
    and gs: "list_all2 (\<lambda>V g. \<exists>a. g = newVariable ''gsum''
            (if gt_zero (momentum conf) then getType V else getVoidTy) Broadcast (Finite 0) a)
          (filter isTraining Vs) gsums"
    and sg: "list_all2 (\<lambda>(V, g) X. \<exists>a. X = SGDNode a (getName V) (the (gradMap s (NodeValueOf V)))
            (NodeValueOf V) (NodeValueOf g) (L1Decay conf) (L2Decay conf) (learningRate conf)
            (momentum conf) (batchSize conf))
          (zip (filter isTraining Vs) gsums) sgds"
    by blast
  from gs have l1: "length gsums = length (filter isTraining Vs)"
    by (simp add: list_all2_lengthD)
  from sg l1 have l2: "length sgds = length (filter isTraining Vs)"
    by (auto dest: list_all2_lengthD)
  have "\<forall>k<length (filter isTraining Vs).
            \<exists>a. sgds ! k =
              SGDNode a (getName (filter isTraining Vs ! k))
                (the (gradMap s (NodeValueOf (filter isTraining Vs ! k))))
                (NodeValueOf (filter isTraining Vs ! k)) (NodeValueOf (gsums ! k))
                (L1Decay conf) (L2Decay conf) (learningRate conf) (momentum conf)
                (batchSize conf)"
  proof (intro allI impI)
    fix k assume k: "k < length (filter isTraining Vs)"
    with sg l1 l2 show "\<exists>a. sgds ! k =
              SGDNode a (getName (filter isTraining Vs ! k))
                (the (gradMap s (NodeValueOf (filter isTraining Vs ! k))))
                (NodeValueOf (filter isTraining Vs ! k)) (NodeValueOf (gsums ! k))
                (L1Decay conf) (L2Decay conf) (learningRate conf) (momentum conf)
                (batchSize conf)"
      using list_all2_nthD [OF sg, of k] by simp
  qed
  with r l1 l2 show ?thesis by blast
qed

theorem update_coverage_witness:
  "isTraining ex_A \<and> \<not> isTraining ex_B
   \<and> gradMap ex_upd_state (NodeValueOf ex_A) = Some ex_g1
   \<and> (\<exists>s'. updateLoop ex_conf Train [ex_A, ex_B] ex_upd_state = Inr s'
         \<and> toAppend s' =
             [SGDNode 6 ''A'' ex_g1 (NodeValueOf ex_A)
                (NodeValueOf (Variable 5 ''gsum'' (TypeRef []) Broadcast (Finite 0) True))
                (Finite 0) (Finite 0) (Finite (1 / 100)) (Finite 0) 8])"
proof -
  have pre: "\<forall>V\<in>set [ex_A, ex_B]. isTraining V \<longrightarrow> gradMap ex_upd_state (NodeValueOf V) \<noteq> None"
    by (simp add: ex_A_def ex_B_def ex_upd_state_def)
  from update_coverage [OF pre, of ex_conf Train] obtain s' where
    "updateLoop ex_conf Train [ex_A, ex_B] ex_upd_state = Inr s'"
    by blast
  moreover have "toAppend (case updateLoop ex_conf Train [ex_A, ex_B] ex_upd_state of Inr s' \<Rightarrow> s')
      = [SGDNode 6 ''A'' ex_g1 (NodeValueOf ex_A)
                (NodeValueOf (Variable 5 ''gsum'' (TypeRef []) Broadcast (Finite 0) True))
                (Finite 0) (Finite 0) (Finite (1 / 100)) (Finite 0) 8]"
    by (simp add: updateStep_def saveGradient_def getGradient_def new_def push_back_def
        newVariable_def getVoidTy_def Let_def ex_A_def ex_B_def ex_upd_state_def ex_conf_def)
  ultimately show ?thesis
    by (simp add: ex_A_def ex_B_def ex_upd_state_def)
qed

text \<open>
  C4. The momentum accumulator staged for a trainable variable is a variable named
  \<open>gsum\<close> whose type is the type of the variable when the momentum is positive and the
  void type otherwise: with a positive momentum every accumulator has the shape of its
  variable, with momentum zero every accumulator has the void type, which has no
  dimensions.
\<close>

theorem momentum_accumulator:
  assumes "\<forall>V\<in>set Vs. isTraining V \<longrightarrow> gradMap s (NodeValueOf V) \<noteq> None"
  shows "\<exists>s' gsums.
      updateLoop conf mode Vs s = Inr s' \<and> newVars s' = newVars s @ gsums
      \<and> length gsums = length (filter isTraining Vs)
      \<and> (\<forall>k<length (filter isTraining Vs).
            \<exists>a. gsums ! k =
              newVariable ''gsum''
                (if gt_zero (momentum conf) then getType (filter isTraining Vs ! k)
                 else getVoidTy)
                Broadcast (Finite 0) a)
      \<and> (gt_zero (momentum conf) \<longrightarrow>
            (\<forall>k<length (filter isTraining Vs).
               getType (gsums ! k) = getType (filter isTraining Vs ! k)))
      \<and> (momentum conf = Finite 0 \<longrightarrow>
            (\<forall>g\<in>set gsums. getType g = getVoidTy \<and> dims (getType g) = []))"
proof -
  from updateLoop_training [OF assms, of conf mode] obtain s' gsums where
    r: "updateLoop conf mode Vs s = Inr s'" "newVars s' = newVars s @ gsums"
    and gs: "list_all2 (\<lambda>V g. \<exists>a. g = newVariable ''gsum''
            (if gt_zero (momentum conf) then getType V else getVoidTy) Broadcast (Finite 0) a)
          (filter isTraining Vs) gsums"
    by blast
  from gs have len: "length gsums = length (filter isTraining Vs)"
    by (simp add: list_all2_lengthD)
  have nth: "\<exists>a. gsums ! k =
              newVariable ''gsum''
                (if gt_zero (momentum conf) then getType (filter isTraining Vs ! k)
                 else getVoidTy)
                Broadcast (Finite 0) a"
    if "k < length (filter isTraining Vs)" for k
    using list_all2_nthD [OF gs that] .
  have same: "getType (gsums ! k) = getType (filter isTraining Vs ! k)"
    if "k < length (filter isTraining Vs)" and "gt_zero (momentum conf)" for k
    using nth [OF that(1)] that(2) by (auto simp: newVariable_def)
  have void: "getType g = getVoidTy \<and> dims (getType g) = []"
    if "g \<in> set gsums" and "momentum conf = Finite 0" for g
  proof -
    from that(1) obtain k where k: "k < length gsums" "gsums ! k = g"
      by (auto simp: in_set_conv_nth)
    with nth [of k] len that(2) show ?thesis
      by (auto simp: newVariable_def getVoidTy_def)
  qed
  from r len nth same void show ?thesis
    by blast
qed

theorem momentum_accumulator_witness:
  "isTraining ex_A \<and> \<not> isTraining ex_B
   \<and> gradMap ex_upd_state (NodeValueOf ex_A) = Some ex_g1
   \<and> momentum ex_conf = Finite 0 \<and> gt_zero (momentum ex_conf_momentum)
   \<and> (\<exists>s'. updateLoop ex_conf Train [ex_A, ex_B] ex_upd_state = Inr s'
         \<and> newVars s' = [Variable 5 ''gsum'' (TypeRef []) Broadcast (Finite 0) True])
   \<and> (\<exists>s'. updateLoop ex_conf_momentum Train [ex_A, ex_B] ex_upd_state = Inr s'
         \<and> newVars s' = [Variable 5 ''gsum'' (TypeRef [2, 3]) Broadcast (Finite 0) True])"
proof -
  have pre: "\<forall>V\<in>set [ex_A, ex_B]. isTraining V \<longrightarrow> gradMap ex_upd_state (NodeValueOf V) \<noteq> None"
    by (simp add: ex_A_def ex_B_def ex_upd_state_def)
  from momentum_accumulator [OF pre, of ex_conf Train] obtain s1 where
    s1: "updateLoop ex_conf Train [ex_A, ex_B] ex_upd_state = Inr s1"
    by blast
  from momentum_accumulator [OF pre, of ex_conf_momentum Train] obtain s2 where
    s2: "updateLoop ex_conf_momentum Train [ex_A, ex_B] ex_upd_state = Inr s2"
    by blast
  have "newVars (case updateLoop ex_conf Train [ex_A, ex_B] ex_upd_state of Inr s' \<Rightarrow> s')
      = [Variable 5 ''gsum'' (TypeRef []) Broadcast (Finite 0) True]"
    by (simp add: updateStep_def saveGradient_def getGradient_def new_def push_back_def
        newVariable_def getVoidTy_def Let_def ex_A_def ex_B_def ex_upd_state_def ex_conf_def)
  moreover have "newVars (case updateLoop ex_conf_momentum Train [ex_A, ex_B] ex_upd_state of Inr s' \<Rightarrow> s')
      = [Variable 5 ''gsum'' (TypeRef [2, 3]) Broadcast (Finite 0) True]"
    by (simp add: updateStep_def saveGradient_def getGradient_def new_def push_back_def
        newVariable_def getVoidTy_def Let_def ex_A_def ex_B_def ex_upd_state_def ex_conf_def
        ex_conf_momentum_def)
  ultimately show ?thesis
    using s1 s2 by (simp add: ex_A_def ex_B_def ex_upd_state_def ex_conf_def ex_conf_momentum_def)
qed

text \<open>
  C6. In mode \<open>TrainDebug\<close> a run of the update loop adds to the graph, for each variable
  that has a registered gradient, trainable or not and in order, a save node named
  \<open>_grad_\<close> followed by the name of the variable, whose input is that gradient and whose
  output is a new variable, and records the pair of the variable and that new variable;
  nothing else is added to the nodes, the variables and the table. In any other mode the
  nodes, the variables and the table are unchanged. The loop returns when every
  trainable variable has a gradient.
\<close>

theorem debug_snapshots:
  "(\<forall>s'. updateLoop conf TrainDebug Vs s = Inr s' \<longrightarrow>
      (\<exists>dests saves.
         vars s' = vars s @ dests \<and> nodes s' = nodes s @ saves
         \<and> grads s' = grads s @
             map2 (\<lambda>V d. (V, Some d))
               (filter (\<lambda>V. gradMap s (NodeValueOf V) \<noteq> None) Vs) dests
         \<and> length dests = length (filter (\<lambda>V. gradMap s (NodeValueOf V) \<noteq> None) Vs)
         \<and> length saves = length (filter (\<lambda>V. gradMap s (NodeValueOf V) \<noteq> None) Vs)
         \<and> (\<forall>k<length (filter (\<lambda>V. gradMap s (NodeValueOf V) \<noteq> None) Vs).
               \<exists>a b. dests ! k =
                   newVariable
                     (''_grad_'' @ getName (filter (\<lambda>V. gradMap s (NodeValueOf V) \<noteq> None) Vs ! k))
                     (getType (fst (the (gradMap s (NodeValueOf
                        (filter (\<lambda>V. gradMap s (NodeValueOf V) \<noteq> None) Vs ! k))))))
                     Extern (Finite 0) a
                 \<and> saves ! k =
                   SaveNode b
                     (''_grad_'' @ getName (filter (\<lambda>V. gradMap s (NodeValueOf V) \<noteq> None) Vs ! k))
                     (the (gradMap s (NodeValueOf
                        (filter (\<lambda>V. gradMap s (NodeValueOf V) \<noteq> None) Vs ! k))))
                     (NodeValueOf (dests ! k)))))
   \<and> (\<forall>s'. mode \<noteq> TrainDebug \<and> updateLoop conf mode Vs s = Inr s' \<longrightarrow>
         vars s' = vars s \<and> nodes s' = nodes s \<and> grads s' = grads s)
   \<and> ((\<forall>V\<in>set Vs. isTraining V \<longrightarrow> gradMap s (NodeValueOf V) \<noteq> None) \<longrightarrow>
         (\<exists>s'. updateLoop conf mode Vs s = Inr s'))"
proof (intro conjI allI impI)
  fix s'
  assume run: "updateLoop conf TrainDebug Vs s = Inr s'"
  let ?Ws = "filter (\<lambda>V. gradMap s (NodeValueOf V) \<noteq> None) Vs"
  from updateLoop_snapshots [OF run] obtain dests saves where
    r: "vars s' = vars s @ dests" "nodes s' = nodes s @ saves"
      "grads s' = grads s @ map2 (\<lambda>V d. (V, Some d)) ?Ws dests"
    and ds: "list_all2 (\<lambda>V d. \<exists>a. d = newVariable (''_grad_'' @ getName V)
            (getType (fst (the (gradMap s (NodeValueOf V))))) Extern (Finite 0) a) ?Ws dests"
    and ss: "list_all2 (\<lambda>(V, d) S. \<exists>a. S = SaveNode a (''_grad_'' @ getName V)
            (the (gradMap s (NodeValueOf V))) (NodeValueOf d)) (zip ?Ws dests) saves"
    by blast
  from ds have l1: "length dests = length ?Ws"
    by (simp add: list_all2_lengthD)
  from ss l1 have l2: "length saves = length ?Ws"
    by (auto dest: list_all2_lengthD)
  have "\<exists>a b. dests ! k =
          newVariable (''_grad_'' @ getName (?Ws ! k))
            (getType (fst (the (gradMap s (NodeValueOf (?Ws ! k)))))) Extern (Finite 0) a
        \<and> saves ! k =
          SaveNode b (''_grad_'' @ getName (?Ws ! k))
            (the (gradMap s (NodeValueOf (?Ws ! k)))) (NodeValueOf (dests ! k))"
    if k: "k < length ?Ws" for k
    using list_all2_nthD [OF ds k] list_all2_nthD [OF ss, of k] k l1 by auto
  with r l1 l2 show "\<exists>dests saves.
         vars s' = vars s @ dests \<and> nodes s' = nodes s @ saves
         \<and> grads s' = grads s @ map2 (\<lambda>V d. (V, Some d)) ?Ws dests
         \<and> length dests = length ?Ws \<and> length saves = length ?Ws
         \<and> (\<forall>k<length ?Ws.
               \<exists>a b. dests ! k =
                   newVariable (''_grad_'' @ getName (?Ws ! k))
                     (getType (fst (the (gradMap s (NodeValueOf (?Ws ! k))))))
                     Extern (Finite 0) a
                 \<and> saves ! k =
                   SaveNode b (''_grad_'' @ getName (?Ws ! k))
                     (the (gradMap s (NodeValueOf (?Ws ! k)))) (NodeValueOf (dests ! k)))"
    by blast
next
  fix s'
  assume "mode \<noteq> TrainDebug \<and> updateLoop conf mode Vs s = Inr s'"
  then show "vars s' = vars s" "nodes s' = nodes s" "grads s' = grads s"
    using updateLoop_no_snapshots [of conf mode Vs s s'] by simp_all
next
  assume "\<forall>V\<in>set Vs. isTraining V \<longrightarrow> gradMap s (NodeValueOf V) \<noteq> None"
  from updateLoop_training [OF this, of conf mode]
  show "\<exists>s'. updateLoop conf mode Vs s = Inr s'"
    by blast
qed

theorem debug_snapshots_witness:
  "gradMap ex_upd_state (NodeValueOf ex_A) = Some ex_g1
   \<and> gradMap ex_upd_state (NodeValueOf ex_B) = Some ex_g2
   \<and> isTraining ex_A \<and> \<not> isTraining ex_B
   \<and> (\<exists>s'. updateLoop ex_conf TrainDebug [ex_A, ex_B] ex_upd_state = Inr s'
         \<and> nodes s' =
             [SaveNode 6 ''_grad_A'' ex_g1
                (NodeValueOf (Variable 5 ''_grad_A'' (TypeRef [2, 3]) Extern (Finite 0) False)),
              SaveNode 10 ''_grad_B'' ex_g2
                (NodeValueOf (Variable 9 ''_grad_B'' (TypeRef [2, 3]) Extern (Finite 0) False))]
         \<and> grads s' =
             [(ex_A, Some (Variable 5 ''_grad_A'' (TypeRef [2, 3]) Extern (Finite 0) False)),
              (ex_B, Some (Variable 9 ''_grad_B'' (TypeRef [2, 3]) Extern (Finite 0) False))])
   \<and> (\<exists>s'. updateLoop ex_conf Train [ex_A, ex_B] ex_upd_state = Inr s'
         \<and> nodes s' = [] \<and> grads s' = [])"
proof -
  have pre: "\<forall>V\<in>set [ex_A, ex_B]. isTraining V \<longrightarrow> gradMap ex_upd_state (NodeValueOf V) \<noteq> None"
    by (simp add: ex_A_def ex_B_def ex_upd_state_def)
  from debug_snapshots [of ex_conf "[ex_A, ex_B]" ex_upd_state TrainDebug] pre
  obtain s1 where s1: "updateLoop ex_conf TrainDebug [ex_A, ex_B] ex_upd_state = Inr s1"
    by blast
  from debug_snapshots [of ex_conf "[ex_A, ex_B]" ex_upd_state Train] pre
  obtain s2 where s2: "updateLoop ex_conf Train [ex_A, ex_B] ex_upd_state = Inr s2"
    and "nodes s2 = nodes ex_upd_state \<and> grads s2 = grads ex_upd_state"
    by blast
  then have n2: "nodes s2 = []" "grads s2 = []"
    by (simp_all add: ex_upd_state_def)
  have ev: "(\<lambda>s. (nodes s, grads s))
        (case updateLoop ex_conf TrainDebug [ex_A, ex_B] ex_upd_state of Inr s' \<Rightarrow> s')
      = ([SaveNode 6 ''_grad_A'' ex_g1
                (NodeValueOf (Variable 5 ''_grad_A'' (TypeRef [2, 3]) Extern (Finite 0) False)),
              SaveNode 10 ''_grad_B'' ex_g2
                (NodeValueOf (Variable 9 ''_grad_B'' (TypeRef [2, 3]) Extern (Finite 0) False))],
         [(ex_A, Some (Variable 5 ''_grad_A'' (TypeRef [2, 3]) Extern (Finite 0) False)),
              (ex_B, Some (Variable 9 ''_grad_B'' (TypeRef [2, 3]) Extern (Finite 0) False))])"
    by (simp add: updateStep_def saveGradient_def hasGradient_def getGradient_def new_def
        push_back_def createSave_def addVar_def addNode_def addGradientVariable_def
        newVariable_def getVoidTy_def Let_def ex_A_def ex_B_def ex_upd_state_def ex_conf_def
        ex_g1_def ex_g2_def)
  show ?thesis
    using s1 s2 n2 ev by (simp add: ex_A_def ex_B_def ex_upd_state_def)
qed

subsection \<open>The concatenation rule\<close>

lemma addGradient_frame:
  "toAppend (addGradient v g s) = toAppend s \<and> newVars (addGradient v g s) = newVars s
   \<and> vars (addGradient v g s) = vars s \<and> grads (addGradient v g s) = grads s
   \<and> (\<exists>adds. nodes (addGradient v g s) = nodes s @ adds
         \<and> heap (addGradient v g s) = heap s @ adds
         \<and> fresh (addGradient v g s) = fresh s + length adds
         \<and> (\<forall>X\<in>set adds. getKind X = ArithmeticNodeKind \<and> getName X = ''updateGrad''))
   \<and> dom (gradMap (addGradient v g s)) = insert v (dom (gradMap s))"
proof (cases "gradMap s v")
  case None
  then show ?thesis
    by (simp add: addGradient_None)
next
  case (Some c)
  then show ?thesis
    by (auto simp: addGradient_Some)
qed

lemma sum_list_unat:
  fixes f :: "'a \<Rightarrow> 'b::len word"
  assumes "(\<Sum>x\<leftarrow>xs. unat (f x)) < 2 ^ LENGTH('b)"
  shows "unat (\<Sum>x\<leftarrow>xs. f x) = (\<Sum>x\<leftarrow>xs. unat (f x))"
  using assms
proof (induction xs)
  case Nil
  show ?case by simp
next
  case (Cons x xs)
  then have "unat (\<Sum>y\<leftarrow>xs. f y) = (\<Sum>y\<leftarrow>xs. unat (f y))"
    by simp
  moreover from Cons.prems have "unat (f x) + (\<Sum>y\<leftarrow>xs. unat (f y)) < 2 ^ LENGTH('b)"
    by simp
  ultimately show ?case
    by (simp add: unat_add_lem [THEN iffD1])
qed

lemma sum_list_take_le:
  fixes f :: "'a \<Rightarrow> nat"
  shows "(\<Sum>x\<leftarrow>take k xs. f x) \<le> (\<Sum>x\<leftarrow>xs. f x)"
proof -
  have "(\<Sum>x\<leftarrow>xs. f x) = (\<Sum>x\<leftarrow>take k xs. f x) + (\<Sum>x\<leftarrow>drop k xs. f x)"
    by (metis append_take_drop_id map_append sum_list_append)
  then show ?thesis by simp
qed

lemma concatLoop_slices:
  assumes "d < length offsets"
    and "\<forall>I\<in>set inputs. d < length (dims (getType (fst I)))"
  shows "\<exists>s' hs.
      concatLoop inputs outputG d offsets s = Inr s'
      \<and> heap s' = heap s @ hs \<and> toAppend s' = toAppend s
      \<and> set inputs \<subseteq> dom (gradMap s') \<and> dom (gradMap s) \<subseteq> dom (gradMap s')
      \<and> length (filter (\<lambda>X. getKind X = SliceNodeKind) hs) = length inputs
      \<and> (\<forall>k<length inputs.
            \<exists>a. filter (\<lambda>X. getKind X = SliceNodeKind) hs ! k =
              SliceNode a ''extract'' (getType (fst (inputs ! k))) outputG
                (offsets[d := offsets ! d
                   + (\<Sum>I\<leftarrow>take k inputs. dims (getType (fst I)) ! d)]))"
  using assms
proof (induction inputs arbitrary: offsets s)
  case Nil
  show ?case by simp
next
  case (Cons N inputs)
  let ?X = "SliceNode (fresh s) ''extract'' (getType (fst N)) outputG offsets"
  let ?s1 = "s\<lparr>fresh := Suc (fresh s), heap := heap s @ [?X]\<rparr>"
  let ?s2 = "addGradient N (NodeValueOf ?X) ?s1"
  let ?offsets = "offsets[d := offsets ! d + dims (getType (fst N)) ! d]"
  have unfold: "concatLoop (N # inputs) outputG d offsets s = concatLoop inputs outputG d ?offsets ?s2"
    using Cons.prems by (simp add: new_def)
  from addGradient_frame [of N "NodeValueOf ?X" ?s1] obtain adds where
    fr: "toAppend ?s2 = toAppend s" "heap ?s2 = heap s @ [?X] @ adds"
      "\<forall>Y\<in>set adds. getKind Y = ArithmeticNodeKind"
      "dom (gradMap ?s2) = insert N (dom (gradMap s))"
    by auto
  have "d < length ?offsets" and "\<forall>I\<in>set inputs. d < length (dims (getType (fst I)))"
    using Cons.prems by simp_all
  from Cons.IH [OF this, of ?s2] obtain s' hs where
    r: "concatLoop inputs outputG d ?offsets ?s2 = Inr s'"
      "heap s' = heap ?s2 @ hs" "toAppend s' = toAppend ?s2"
      "set inputs \<subseteq> dom (gradMap s')" "dom (gradMap ?s2) \<subseteq> dom (gradMap s')"
      "length (filter (\<lambda>X. getKind X = SliceNodeKind) hs) = length inputs"
      "\<forall>k<length inputs.
            \<exists>a. filter (\<lambda>X. getKind X = SliceNodeKind) hs ! k =
              SliceNode a ''extract'' (getType (fst (inputs ! k))) outputG
                (?offsets[d := ?offsets ! d
                   + (\<Sum>I\<leftarrow>take k inputs. dims (getType (fst I)) ! d)])"
    by blast
  let ?hs = "[?X] @ adds @ hs"
  have nosl: "filter (\<lambda>X. getKind X = SliceNodeKind) adds = []"
    using fr(3) by (auto simp: filter_empty_conv)
  have fl: "filter (\<lambda>X. getKind X = SliceNodeKind) ?hs
      = ?X # filter (\<lambda>X. getKind X = SliceNodeKind) hs"
    using nosl by simp
  have nth: "\<exists>a. filter (\<lambda>X. getKind X = SliceNodeKind) ?hs ! k =
              SliceNode a ''extract'' (getType (fst ((N # inputs) ! k))) outputG
                (offsets[d := offsets ! d
                   + (\<Sum>I\<leftarrow>take k (N # inputs). dims (getType (fst I)) ! d)])"
    if k: "k < length (N # inputs)" for k
  proof (cases k)
    case 0
    then show ?thesis
      unfolding fl by simp
  next
    case (Suc j)
    with k have j: "j < length inputs" by simp
    from r(7) j obtain a where
      "filter (\<lambda>X. getKind X = SliceNodeKind) hs ! j =
              SliceNode a ''extract'' (getType (fst (inputs ! j))) outputG
                (?offsets[d := ?offsets ! d
                   + (\<Sum>I\<leftarrow>take j inputs. dims (getType (fst I)) ! d)])"
      by blast
    moreover have "?offsets[d := ?offsets ! d
                   + (\<Sum>I\<leftarrow>take j inputs. dims (getType (fst I)) ! d)]
        = offsets[d := offsets ! d
                   + (\<Sum>I\<leftarrow>take (Suc j) (N # inputs). dims (getType (fst I)) ! d)]"
      using Cons.prems(1) by (simp add: add.assoc)
    ultimately show ?thesis
      unfolding fl Suc by simp
  qed
  have "concatLoop (N # inputs) outputG d offsets s = Inr s'"
    using unfold r(1) by simp
  moreover have "heap s' = heap s @ ?hs"
    using r(2) fr(2) by simp
  moreover have "toAppend s' = toAppend s"
    using r(3) fr(1) by simp
  moreover have "set (N # inputs) \<subseteq> dom (gradMap s')" "dom (gradMap s) \<subseteq> dom (gradMap s')"
    using r(4,5) fr(4) by auto
  moreover have "length (filter (\<lambda>X. getKind X = SliceNodeKind) ?hs) = length (N # inputs)"
    unfolding fl using r(6) by simp
  ultimately show ?case
    using nth by blast
qed

text \<open>
  C8. For a concatenation node along axis \<open>d\<close> whose result has the registered gradient
  \<open>outputG\<close>, with \<open>d\<close> an axis of the node and of every input, the step allocates
  exactly one slice of \<open>outputG\<close> per input, in input order, typed as that input. The
  start of slice \<open>k\<close> has the rank of the node, is zero on every axis but \<open>d\<close>, and on
  axis \<open>d\<close> is the sum of the extents of the inputs before \<open>k\<close> (computed in
  \<^verbatim>\<open>size_t\<close>). When the extent of the node along \<open>d\<close> is the sum of the extents of its
  inputs (the typing of a concatenation), no sum wraps: slice \<open>k\<close> starts at
  \<open>e1 + ... + e(k-1)\<close>, ends where slice \<open>k+1\<close> starts, and lies within the extent of
  the node, which the last slice reaches.
\<close>

theorem concat_rule_partition:
  assumes "getKind N = ConcatNodeKind"
    and "gradMap s (getResult N) = Some outputG"
    and "getDim N < length (dims (getType N))"
    and "\<forall>I\<in>set (getInputs N). getDim N < length (dims (getType (fst I)))"
  shows "\<exists>s' hs slices.
      gradStep N s = Inr s' \<and> heap s' = heap s @ hs
      \<and> slices = filter (\<lambda>X. getKind X = SliceNodeKind) hs
      \<and> length slices = length (getInputs N)
      \<and> (\<forall>k<length (getInputs N). \<exists>a start.
            slices ! k =
              SliceNode a ''extract'' (getType (fst (getInputs N ! k))) outputG start
            \<and> length start = length (dims (getType N))
            \<and> start ! getDim N
                = (\<Sum>I\<leftarrow>take k (getInputs N). dims (getType (fst I)) ! getDim N)
            \<and> (\<forall>j<length start. j \<noteq> getDim N \<longrightarrow> start ! j = 0)
            \<and> ((\<Sum>I\<leftarrow>getInputs N. unat (dims (getType (fst I)) ! getDim N))
                  = unat (dims (getType N) ! getDim N) \<longrightarrow>
                unat (start ! getDim N)
                  = (\<Sum>I\<leftarrow>take k (getInputs N). unat (dims (getType (fst I)) ! getDim N))
                \<and> unat (start ! getDim N)
                    + unat (dims (getType (fst (getInputs N ! k))) ! getDim N)
                  = (\<Sum>I\<leftarrow>take (Suc k) (getInputs N).
                       unat (dims (getType (fst I)) ! getDim N))
                \<and> (\<Sum>I\<leftarrow>take (Suc k) (getInputs N).
                       unat (dims (getType (fst I)) ! getDim N))
                  \<le> unat (dims (getType N) ! getDim N)))"
proof -
  let ?d = "getDim N"
  let ?r = "length (dims (getType N))"
  let ?ins = "getInputs N"
  let ?zeros = "replicate ?r (0 :: size_t)"
  have d: "?d < length ?zeros"
    using assms(3) by simp
  from concatLoop_slices [OF d assms(4), of outputG s] obtain s' hs where
    r: "concatLoop ?ins outputG ?d ?zeros s = Inr s'" "heap s' = heap s @ hs"
      "length (filter (\<lambda>X. getKind X = SliceNodeKind) hs) = length ?ins"
      "\<forall>k<length ?ins.
            \<exists>a. filter (\<lambda>X. getKind X = SliceNodeKind) hs ! k =
              SliceNode a ''extract'' (getType (fst (?ins ! k))) outputG
                (?zeros[?d := ?zeros ! ?d + (\<Sum>I\<leftarrow>take k ?ins. dims (getType (fst I)) ! ?d)])"
    by blast
  have step: "gradStep N s = Inr s'"
    using assms(1,2) r(1) by (simp add: gradStep_def getGradient_def)
  have each: "\<exists>a start.
            filter (\<lambda>X. getKind X = SliceNodeKind) hs ! k =
              SliceNode a ''extract'' (getType (fst (?ins ! k))) outputG start
            \<and> length start = ?r
            \<and> start ! ?d = (\<Sum>I\<leftarrow>take k ?ins. dims (getType (fst I)) ! ?d)
            \<and> (\<forall>j<length start. j \<noteq> ?d \<longrightarrow> start ! j = 0)
            \<and> ((\<Sum>I\<leftarrow>?ins. unat (dims (getType (fst I)) ! ?d)) = unat (dims (getType N) ! ?d) \<longrightarrow>
                unat (start ! ?d) = (\<Sum>I\<leftarrow>take k ?ins. unat (dims (getType (fst I)) ! ?d))
                \<and> unat (start ! ?d) + unat (dims (getType (fst (?ins ! k))) ! ?d)
                  = (\<Sum>I\<leftarrow>take (Suc k) ?ins. unat (dims (getType (fst I)) ! ?d))
                \<and> (\<Sum>I\<leftarrow>take (Suc k) ?ins. unat (dims (getType (fst I)) ! ?d))
                  \<le> unat (dims (getType N) ! ?d))"
    if k: "k < length ?ins" for k
  proof -
    let ?start = "?zeros[?d := ?zeros ! ?d + (\<Sum>I\<leftarrow>take k ?ins. dims (getType (fst I)) ! ?d)]"
    from r(4) k obtain a where a: "filter (\<lambda>X. getKind X = SliceNodeKind) hs ! k =
        SliceNode a ''extract'' (getType (fst (?ins ! k))) outputG ?start"
      by blast
    have len: "length ?start = ?r" by simp
    have at_d: "?start ! ?d = (\<Sum>I\<leftarrow>take k ?ins. dims (getType (fst I)) ! ?d)"
      using assms(3) by simp
    have off_d: "\<forall>j<length ?start. j \<noteq> ?d \<longrightarrow> ?start ! j = 0"
      by simp
    have typed: "unat (?start ! ?d) = (\<Sum>I\<leftarrow>take k ?ins. unat (dims (getType (fst I)) ! ?d))
        \<and> unat (?start ! ?d) + unat (dims (getType (fst (?ins ! k))) ! ?d)
            = (\<Sum>I\<leftarrow>take (Suc k) ?ins. unat (dims (getType (fst I)) ! ?d))
        \<and> (\<Sum>I\<leftarrow>take (Suc k) ?ins. unat (dims (getType (fst I)) ! ?d))
            \<le> unat (dims (getType N) ! ?d)"
      if ty: "(\<Sum>I\<leftarrow>?ins. unat (dims (getType (fst I)) ! ?d)) = unat (dims (getType N) ! ?d)"
    proof -
      have bound: "(\<Sum>I\<leftarrow>?ins. unat (dims (getType (fst I)) ! ?d)) < 2 ^ LENGTH(64)"
        unfolding ty by (rule unsigned_less)
      have le: "(\<Sum>I\<leftarrow>take j ?ins. unat (dims (getType (fst I)) ! ?d))
          \<le> (\<Sum>I\<leftarrow>?ins. unat (dims (getType (fst I)) ! ?d))" for j
        by (rule sum_list_take_le)
      have "(\<Sum>I\<leftarrow>take k ?ins. unat (dims (getType (fst I)) ! ?d)) < 2 ^ LENGTH(64)"
        using le [of k] bound by simp
      then have u: "unat (\<Sum>I\<leftarrow>take k ?ins. dims (getType (fst I)) ! ?d)
          = (\<Sum>I\<leftarrow>take k ?ins. unat (dims (getType (fst I)) ! ?d))"
        by (rule sum_list_unat)
      have "(\<Sum>I\<leftarrow>take (Suc k) ?ins. unat (dims (getType (fst I)) ! ?d))
          = (\<Sum>I\<leftarrow>take k ?ins. unat (dims (getType (fst I)) ! ?d))
            + unat (dims (getType (fst (?ins ! k))) ! ?d)"
        using k by (simp add: take_Suc_conv_app_nth)
      with u at_d le [of "Suc k"] ty show ?thesis
        by simp
    qed
    from a len at_d off_d typed show ?thesis
      by blast
  qed
  from step r(2,3) each show ?thesis
    by blast
qed

theorem concat_rule_partition_witness:
  "getKind ex_cc = ConcatNodeKind
   \<and> gradMap ex_cc_state (getResult ex_cc) = Some ex_g1
   \<and> getDim ex_cc < length (dims (getType ex_cc))
   \<and> (\<Sum>I\<leftarrow>getInputs ex_cc. unat (dims (getType (fst I)) ! getDim ex_cc))
       = unat (dims (getType ex_cc) ! getDim ex_cc)
   \<and> (\<exists>s'. gradStep ex_cc ex_cc_state = Inr s'
         \<and> heap s' = [SliceNode 5 ''extract'' (TypeRef [2, 3]) ex_g1 [0, 0],
                       SliceNode 6 ''extract'' (TypeRef [2, 5]) ex_g1 [0, 3]]
         \<and> toAppend s' = [])"
proof -
  have k: "getKind ex_cc = ConcatNodeKind"
    and d: "getDim ex_cc < length (dims (getType ex_cc))"
    and i: "\<forall>I\<in>set (getInputs ex_cc). getDim ex_cc < length (dims (getType (fst I)))"
    and ty: "(\<Sum>I\<leftarrow>getInputs ex_cc. unat (dims (getType (fst I)) ! getDim ex_cc))
       = unat (dims (getType ex_cc) ! getDim ex_cc)"
    by (simp_all add: ex_cc_def ex_c1_def ex_c2_def)
  have g: "gradMap ex_cc_state (getResult ex_cc) = Some ex_g1"
    by (simp add: ex_cc_state_def)
  from concat_rule_partition [OF k g d i] obtain s' where
    s': "gradStep ex_cc ex_cc_state = Inr s'"
    by blast
  have "(\<lambda>s. (heap s, toAppend s)) (case gradStep ex_cc ex_cc_state of Inr s' \<Rightarrow> s')
      = ([SliceNode 5 ''extract'' (TypeRef [2, 3]) ex_g1 [0, 0],
          SliceNode 6 ''extract'' (TypeRef [2, 5]) ex_g1 [0, 3]], [])"
    by (simp add: gradStep_def getGradient_def new_def addGradient_def Let_def
        ex_cc_def ex_c1_def ex_c2_def ex_cc_state_def)
  with s' k g d ty show ?thesis
    by simp
qed

subsection \<open>Staging and commit\<close>

lemma sweepFrame_refl: "sweepFrame s s"
  by (simp add: sweepFrame_def)

lemma sweepFrame_trans:
  assumes "sweepFrame s s1" and "sweepFrame s1 s2"
  shows "sweepFrame s s2"
proof -
  from assms(1) obtain adds st hs where
    a: "vars s1 = vars s" "newVars s1 = newVars s" "grads s1 = grads s"
      "nodes s1 = nodes s @ adds" "toAppend s1 = toAppend s @ st" "heap s1 = heap s @ hs"
      "set st \<subseteq> set hs"
      "\<forall>X\<in>set adds. getKind X = ArithmeticNodeKind \<and> getName X = ''updateGrad''"
      "\<forall>X\<in>set st. getKind X \<notin> {ArithmeticNodeKind, SaveNodeKind, VariableNodeKind, SliceNodeKind}"
      "\<forall>X\<in>set hs. X \<in> set st \<or> X \<in> set adds \<or> getKind X = SliceNodeKind"
    unfolding sweepFrame_def by blast
  from assms(2) obtain adds' st' hs' where
    b: "vars s2 = vars s1" "newVars s2 = newVars s1" "grads s2 = grads s1"
      "nodes s2 = nodes s1 @ adds'" "toAppend s2 = toAppend s1 @ st'" "heap s2 = heap s1 @ hs'"
      "set st' \<subseteq> set hs'"
      "\<forall>X\<in>set adds'. getKind X = ArithmeticNodeKind \<and> getName X = ''updateGrad''"
      "\<forall>X\<in>set st'. getKind X \<notin> {ArithmeticNodeKind, SaveNodeKind, VariableNodeKind, SliceNodeKind}"
      "\<forall>X\<in>set hs'. X \<in> set st' \<or> X \<in> set adds' \<or> getKind X = SliceNodeKind"
    unfolding sweepFrame_def by blast
  have "\<exists>adds st hs.
           nodes s2 = nodes s @ adds \<and> toAppend s2 = toAppend s @ st \<and> heap s2 = heap s @ hs
           \<and> set st \<subseteq> set hs
           \<and> (\<forall>X\<in>set adds. getKind X = ArithmeticNodeKind \<and> getName X = ''updateGrad'')
           \<and> (\<forall>X\<in>set st. getKind X \<notin> {ArithmeticNodeKind, SaveNodeKind, VariableNodeKind,
                                          SliceNodeKind})
           \<and> (\<forall>X\<in>set hs. X \<in> set st \<or> X \<in> set adds \<or> getKind X = SliceNodeKind)"
  proof (intro exI conjI)
    show "nodes s2 = nodes s @ (adds @ adds')" "toAppend s2 = toAppend s @ (st @ st')"
      "heap s2 = heap s @ (hs @ hs')"
      using a(4,5,6) b(4,5,6) by simp_all
    show "set (st @ st') \<subseteq> set (hs @ hs')"
      using a(7) b(7) by auto
    show "\<forall>X\<in>set (adds @ adds'). getKind X = ArithmeticNodeKind \<and> getName X = ''updateGrad''"
      using a(8) b(8) by auto
    show "\<forall>X\<in>set (st @ st'). getKind X \<notin> {ArithmeticNodeKind, SaveNodeKind, VariableNodeKind, SliceNodeKind}"
      using a(9) b(9) by auto
    show "\<forall>X\<in>set (hs @ hs'). X \<in> set (st @ st') \<or> X \<in> set (adds @ adds') \<or> getKind X = SliceNodeKind"
      using a(10) b(10) by auto
  qed
  then show ?thesis
    unfolding sweepFrame_def using a(1,2,3) b(1,2,3) by simp
qed

lemma push_back_addGradient:
  "push_back X (addGradient v g s) = addGradient v g (push_back X s)"
  by (simp add: addGradient_def push_back_def createArithmetic_def new_def addNode_def
      split: option.splits)

lemma push_back_addGradients:
  "push_back X (addGradients Vs Y i s) = addGradients Vs Y i (push_back X s)"
  by (induction Vs arbitrary: i s) (simp_all add: push_back_addGradient)

lemma sweepFrame_addGradient: "sweepFrame s (addGradient v g s)"
proof -
  from addGradient_frame [of v g s] obtain adds where
    "toAppend (addGradient v g s) = toAppend s" "newVars (addGradient v g s) = newVars s"
    "vars (addGradient v g s) = vars s" "grads (addGradient v g s) = grads s"
    "nodes (addGradient v g s) = nodes s @ adds" "heap (addGradient v g s) = heap s @ adds"
    "\<forall>X\<in>set adds. getKind X = ArithmeticNodeKind \<and> getName X = ''updateGrad''"
    by blast
  then show ?thesis
    unfolding sweepFrame_def
    by (intro conjI exI [of _ adds] exI [of _ "[]"]) simp_all
qed

lemma sweepFrame_staged:
  assumes "\<forall>X\<in>set Xs. getKind X \<notin> {ArithmeticNodeKind, SaveNodeKind, VariableNodeKind, SliceNodeKind}"
  shows "sweepFrame s (s\<lparr>fresh := a, heap := heap s @ Xs, toAppend := toAppend s @ Xs\<rparr>)"
  unfolding sweepFrame_def using assms
  by (intro conjI exI [of _ "[]"] exI [of _ Xs]) simp_all

lemma sweepFrame_slice:
  assumes "getKind X = SliceNodeKind"
  shows "sweepFrame s (s\<lparr>fresh := a, heap := heap s @ [X]\<rparr>)"
  unfolding sweepFrame_def using assms
  by (intro conjI exI [of _ "[]"] exI [of _ "[X]"]) simp_all

lemma sweepFrame_addGradients: "sweepFrame s (addGradients Vs X i s)"
proof (induction Vs arbitrary: i s)
  case Nil
  show ?case by (simp add: sweepFrame_refl)
next
  case (Cons V Vs)
  show ?case
    using sweepFrame_trans [OF sweepFrame_addGradient Cons.IH] by simp
qed

lemma sweepFrame_concatLoop:
  "concatLoop inputs outputG d offsets s = Inr s' \<Longrightarrow> sweepFrame s s'"
proof (induction inputs arbitrary: offsets s)
  case Nil
  then show ?case by (simp add: sweepFrame_refl)
next
  case (Cons N inputs)
  let ?X = "SliceNode (fresh s) ''extract'' (getType (fst N)) outputG offsets"
  let ?s1 = "s\<lparr>fresh := Suc (fresh s), heap := heap s @ [?X]\<rparr>"
  let ?s2 = "addGradient N (NodeValueOf ?X) ?s1"
  from Cons.prems have rest: "concatLoop inputs outputG d
      (offsets[d := offsets ! d + dims (getType (fst N)) ! d]) ?s2 = Inr s'"
    by (simp add: new_def split: if_splits)
  have "sweepFrame s ?s1"
    by (rule sweepFrame_slice) simp
  then have "sweepFrame s ?s2"
    by (rule sweepFrame_trans) (rule sweepFrame_addGradient)
  then show ?case
    by (rule sweepFrame_trans) (rule Cons.IH [OF rest])
qed

lemma sweepFrame_gradStep:
  assumes "gradStep N s = Inr s'"
  shows "sweepFrame s s'"
proof -
  consider
      (var) "getKind N = VariableNodeKind"
    | (deleg) "getKind N \<in> {ConvolutionNodeKind, PoolNodeKind, FullyConnectedNodeKind,
                BatchNormalizationNodeKind, LocalResponseNormalizationNodeKind,
                SoftMaxNodeKind, RegressionNodeKind, ArithmeticNodeKind, ReluNodeKind,
                SigmoidNodeKind, TanhNodeKind}"
    | (save) "getKind N = SaveNodeKind"
    | (reshape) "getKind N = ReshapeNodeKind"
    | (transpose) "getKind N = TransposeNodeKind"
    | (slice) "getKind N = SliceNodeKind"
    | (concat) "getKind N = ConcatNodeKind"
    | (other) "getKind N \<notin> ruleKinds" "getKind N \<noteq> VariableNodeKind"
    unfolding ruleKinds_def by blast
  then show ?thesis
  proof cases
    case var
    with assms show ?thesis
      by (simp add: gradStep_Variable sweepFrame_refl)
  next
    case deleg
    with assms obtain outputG where og: "getGradient (getResult N) s = Inr outputG"
      by (auto simp: gradStep_def getGrad_def split: sum.splits)
    let ?X = "GradNode (fresh s) (getKind N) (getName N) (operands N) outputG"
    let ?s1 = "s\<lparr>fresh := Suc (fresh s), heap := heap s @ [?X]\<rparr>"
    let ?s2 = "addGradients (operands N) ?X 0 ?s1"
    have s': "s' = push_back ?X ?s2"
      using assms deleg og by (auto simp: gradStep_def getGrad_def new_def)
    have "s' = addGradients (operands N) ?X 0 (push_back ?X ?s1)"
      unfolding s' by (rule push_back_addGradients)
    moreover have "sweepFrame s (push_back ?X ?s1)"
      using sweepFrame_staged [of "[?X]" s "Suc (fresh s)"] by (simp add: push_back_def)
    ultimately show ?thesis
      using sweepFrame_trans [OF _ sweepFrame_addGradients] by simp
  next
    case save
    let ?X = "ZeroNode (fresh s) (getName N) (getType (fst (getInput N)))"
    let ?s2 = "s\<lparr>fresh := Suc (fresh s), heap := heap s @ [?X], toAppend := toAppend s @ [?X]\<rparr>"
    have s': "s' = addGradient (getVariable N) (NodeValueOf ?X)
                     (addGradient (getInput N) (NodeValueOf ?X) ?s2)"
      using assms save by (simp add: gradStep_def new_def push_back_def)
    have "sweepFrame s ?s2"
      by (rule sweepFrame_staged) simp
    then show ?thesis
      unfolding s'
      by (intro sweepFrame_trans [OF _ sweepFrame_addGradient]
          sweepFrame_trans [OF _ sweepFrame_addGradient])
  next
    case reshape
    with assms obtain outputG where og: "getGradient (getResult N) s = Inr outputG"
      by (auto simp: gradStep_def split: sum.splits)
    let ?X = "ReshapeNode (fresh s) (getName N) (getType (fst (getInput N))) outputG
                (dims (getType (fst (getInput N))))"
    let ?s2 = "s\<lparr>fresh := Suc (fresh s), heap := heap s @ [?X], toAppend := toAppend s @ [?X]\<rparr>"
    have s': "s' = addGradient (getInput N) (NodeValueOf ?X) ?s2"
      using assms reshape og by (simp add: gradStep_def new_def push_back_def Let_def)
    have "sweepFrame s ?s2"
      by (rule sweepFrame_staged) simp
    then show ?thesis
      unfolding s' by (intro sweepFrame_trans [OF _ sweepFrame_addGradient])
  next
    case transpose
    with assms obtain outputG rs where og: "getGradient (getResult N) s = Inr outputG"
      and rs: "reverseShuffleLoop (getShuffle N) 0 (getShuffle N) = Inr rs"
      by (auto simp: gradStep_def Let_def split: sum.splits)
    let ?X = "TransposeNode (fresh s) (getName N) (getType (fst (getInput N))) outputG rs"
    let ?s2 = "s\<lparr>fresh := Suc (fresh s), heap := heap s @ [?X], toAppend := toAppend s @ [?X]\<rparr>"
    have s': "s' = addGradient (getInput N) (NodeValueOf ?X) ?s2"
      using assms transpose og rs by (simp add: gradStep_def new_def push_back_def Let_def)
    have "sweepFrame s ?s2"
      by (rule sweepFrame_staged) simp
    then show ?thesis
      unfolding s' by (intro sweepFrame_trans [OF _ sweepFrame_addGradient])
  next
    case slice
    let ?Z = "ZeroNode (fresh s) ''expand'' (getType (fst (getInput N)))"
    from assms slice obtain outputG where og: "gradMap s (getResult N) = Some outputG"
      by (auto simp: gradStep_def new_def getGradient_def split: sum.splits option.splits)
    let ?I = "InsertTensorNode (Suc (fresh s)) ''insert.slice.grad'' (NodeValueOf ?Z) outputG
                (getStart N)"
    let ?s2 = "s\<lparr>fresh := Suc (Suc (fresh s)), heap := heap s @ [?Z, ?I],
                 toAppend := toAppend s @ [?Z, ?I]\<rparr>"
    have s': "s' = addGradient (getInput N) (NodeValueOf ?I) ?s2"
      using assms slice og by (simp add: gradStep_def new_def push_back_def getGradient_def)
    have "sweepFrame s ?s2"
      by (rule sweepFrame_staged) simp
    then show ?thesis
      unfolding s' by (intro sweepFrame_trans [OF _ sweepFrame_addGradient])
  next
    case concat
    with assms obtain outputG where
      "concatLoop (getInputs N) outputG (getDim N) (replicate (length (dims (getType N))) 0) s
        = Inr s'"
      by (auto simp: gradStep_def split: sum.splits)
    then show ?thesis
      by (rule sweepFrame_concatLoop)
  next
    case other
    with assms show ?thesis
      by (simp add: gradStep_other_kind)
  qed
qed

lemma sweepFrame_sweep: "sweep Ns s = Inr s' \<Longrightarrow> sweepFrame s s'"
proof (induction Ns arbitrary: s)
  case Nil
  then show ?case by (simp add: sweepFrame_refl)
next
  case (Cons N Ns)
  then obtain s1 where "gradStep N s = Inr s1" "sweep Ns s1 = Inr s'"
    by (auto split: sum.splits)
  then show ?case
    using sweepFrame_trans [OF sweepFrame_gradStep Cons.IH] by blast
qed

lemma updateFrame_refl: "updateFrame mode s s"
  by (simp add: updateFrame_def)

lemma updateFrame_trans:
  assumes "updateFrame mode s s1" and "updateFrame mode s1 s2"
  shows "updateFrame mode s s2"
proof -
  from assms(1) obtain saves dests gs sg hs where
    a: "nodes s1 = nodes s @ saves" "vars s1 = vars s @ dests"
      "newVars s1 = newVars s @ gs" "toAppend s1 = toAppend s @ sg" "heap s1 = heap s @ hs"
      "\<forall>X\<in>set saves. getKind X = SaveNodeKind" "\<forall>X\<in>set dests. getKind X = VariableNodeKind"
      "set hs = set saves \<union> set dests \<union> set gs \<union> set sg"
      "mode \<noteq> TrainDebug \<longrightarrow> saves = [] \<and> dests = []"
    unfolding updateFrame_def by blast
  from assms(2) obtain saves' dests' gs' sg' hs' where
    b: "nodes s2 = nodes s1 @ saves'" "vars s2 = vars s1 @ dests'"
      "newVars s2 = newVars s1 @ gs'" "toAppend s2 = toAppend s1 @ sg'" "heap s2 = heap s1 @ hs'"
      "\<forall>X\<in>set saves'. getKind X = SaveNodeKind" "\<forall>X\<in>set dests'. getKind X = VariableNodeKind"
      "set hs' = set saves' \<union> set dests' \<union> set gs' \<union> set sg'"
      "mode \<noteq> TrainDebug \<longrightarrow> saves' = [] \<and> dests' = []"
    unfolding updateFrame_def by blast
  show ?thesis
    unfolding updateFrame_def
  proof (intro exI conjI)
    show "nodes s2 = nodes s @ (saves @ saves')" "vars s2 = vars s @ (dests @ dests')"
      "newVars s2 = newVars s @ (gs @ gs')" "toAppend s2 = toAppend s @ (sg @ sg')"
      "heap s2 = heap s @ (hs @ hs')"
      using a(1-5) b(1-5) by simp_all
    show "\<forall>X\<in>set (saves @ saves'). getKind X = SaveNodeKind"
      "\<forall>X\<in>set (dests @ dests'). getKind X = VariableNodeKind"
      using a(6,7) b(6,7) by auto
    show "set (hs @ hs') = set (saves @ saves') \<union> set (dests @ dests') \<union> set (gs @ gs')
        \<union> set (sg @ sg')"
      using a(8) b(8) by auto
    show "mode \<noteq> TrainDebug \<longrightarrow> saves @ saves' = [] \<and> dests @ dests' = []"
      using a(9) b(9) by simp
  qed
qed

lemma updateFrame_saveGradient:
  assumes "saveGradient mode V s = Inr s1"
  shows "updateFrame mode s s1"
proof (cases "mode = TrainDebug \<and> gradMap s (NodeValueOf V) \<noteq> None")
  case True
  then obtain g where g: "gradMap s (NodeValueOf V) = Some g" by auto
  let ?d = "newVariable (''_grad_'' @ getName V) (getType (fst g)) Extern (Finite 0) (fresh s)"
  let ?S = "SaveNode (Suc (fresh s)) (''_grad_'' @ getName V) g (NodeValueOf ?d)"
  from True g assms have s1: "s1 = s\<lparr>fresh := Suc (Suc (fresh s)), heap := heap s @ [?d, ?S],
      vars := vars s @ [?d], nodes := nodes s @ [?S], grads := grads s @ [(V, Some ?d)]\<rparr>"
    by (simp add: saveGradient_snap)
  show ?thesis
    unfolding updateFrame_def
  proof (intro exI conjI)
    show "nodes s1 = nodes s @ [?S]" "vars s1 = vars s @ [?d]" "newVars s1 = newVars s @ []"
      "toAppend s1 = toAppend s @ []" "heap s1 = heap s @ [?d, ?S]"
      unfolding s1 by simp_all
    show "\<forall>X\<in>set [?S]. getKind X = SaveNodeKind" "\<forall>X\<in>set [?d]. getKind X = VariableNodeKind"
      by (simp_all add: newVariable_def)
    show "set [?d, ?S] = set [?S] \<union> set [?d] \<union> set [] \<union> set []"
      by auto
    show "mode \<noteq> TrainDebug \<longrightarrow> [?S] = [] \<and> [?d] = []"
      using True by simp
  qed
next
  case False
  then have "saveGradient mode V s = Inr s"
    by (intro saveGradient_skip) blast
  with assms show ?thesis
    by (simp add: updateFrame_refl)
qed

lemma updateFrame_updateStep:
  assumes "updateStep conf mode V s = Inr s2"
  shows "updateFrame mode s s2"
proof -
  obtain s1 where s1: "saveGradient mode V s = Inr s1"
    using saveGradient_total by blast
  then have f1: "updateFrame mode s s1"
    by (rule updateFrame_saveGradient)
  show ?thesis
  proof (cases "isTraining V")
    case False
    with assms s1 f1 show ?thesis
      by (simp add: updateStep_untrained)
  next
    case True
    show ?thesis
    proof (cases "gradMap s (NodeValueOf V)")
      case None
      with True assms show ?thesis
        by (simp add: updateStep_missing)
    next
      case (Some g)
      let ?gs = "newVariable ''gsum'' (if gt_zero (momentum conf) then getType V else getVoidTy)
                 Broadcast (Finite 0) (fresh s1)"
      let ?X = "SGDNode (Suc (fresh s1)) (getName V) g (NodeValueOf V) (NodeValueOf ?gs)
                 (L1Decay conf) (L2Decay conf) (learningRate conf) (momentum conf)
                 (batchSize conf)"
      have s2: "s2 = s1\<lparr>fresh := Suc (Suc (fresh s1)), heap := heap s1 @ [?gs, ?X],
                 newVars := newVars s1 @ [?gs], toAppend := toAppend s1 @ [?X]\<rparr>"
        using assms updateStep_trained [OF True s1 Some, of conf] by simp
      have "updateFrame mode s1 s2"
        unfolding updateFrame_def
      proof (intro exI conjI)
        show "nodes s2 = nodes s1 @ []" "vars s2 = vars s1 @ []"
          "newVars s2 = newVars s1 @ [?gs]" "toAppend s2 = toAppend s1 @ [?X]"
          "heap s2 = heap s1 @ [?gs, ?X]"
          unfolding s2 by simp_all
        show "\<forall>X\<in>set []. getKind X = SaveNodeKind" "\<forall>X\<in>set []. getKind X = VariableNodeKind"
          by simp_all
        show "set [?gs, ?X] = set [] \<union> set [] \<union> set [?gs] \<union> set [?X]"
          by auto
        show "mode \<noteq> TrainDebug \<longrightarrow> ([] :: Node list) = [] \<and> ([] :: Node list) = []"
          by simp
      qed
      with f1 show ?thesis
        by (rule updateFrame_trans)
    qed
  qed
qed

lemma updateFrame_updateLoop:
  "updateLoop conf mode Vs s = Inr s' \<Longrightarrow> updateFrame mode s s'"
proof (induction Vs arbitrary: s)
  case Nil
  then show ?case by (simp add: updateFrame_refl)
next
  case (Cons V Vs)
  then obtain s1 where "updateStep conf mode V s = Inr s1" "updateLoop conf mode Vs s1 = Inr s'"
    by (auto split: sum.splits)
  then show ?case
    using updateFrame_trans [OF updateFrame_updateStep Cons.IH] by blast
qed

lemma foldl_addNode: "foldl (\<lambda>s I. addNode I s) s Xs = s\<lparr>nodes := nodes s @ Xs\<rparr>"
  by (induction Xs arbitrary: s) (simp_all add: addNode_def)

lemma foldl_addVar: "foldl (\<lambda>s I. addVar I s) s Xs = s\<lparr>vars := vars s @ Xs\<rparr>"
  by (induction Xs arbitrary: s) (simp_all add: addVar_def)

lemma commit_eq:
  "commit s = s\<lparr>nodes := nodes s @ toAppend s, vars := vars s @ newVars s\<rparr>"
  by (simp add: commit_def foldl_addNode foldl_addVar)

lemma getPostOrder_locals:
  "getPostOrder (G\<lparr>gradMap := m, toAppend := ta, newVars := nv\<rparr>) = getPostOrder G"
  by (simp add: getPostOrder_def)

lemma ex_fan_order:
  "getPostOrder ex_fan = [ex_fA, ex_fO1, ex_fO2, ex_fR1, ex_fS1, ex_fR2, ex_fS2]"
  by (simp add: getPostOrder_def ex_fan_def visit.simps ex_fA_def ex_fO1_def ex_fO2_def
      ex_fR1_def ex_fS1_def ex_fR2_def ex_fS2_def)

lemma ex_fan_sweep:
  "map_sum id (\<lambda>s. (vars s, nodes s, toAppend s, newVars s, heap s, fresh s,
       map (gradMap s) [NodeValueOf ex_fA, NodeValueOf ex_fO1, NodeValueOf ex_fO2]))
     (sweep (rev (getPostOrder ex_fan)) ex_fan)
   = Inr (vars ex_fan, nodes ex_fan @ [ex_fSum], [ex_fZ2, ex_fG2, ex_fZ1, ex_fG1], [],
          [ex_fZ2, ex_fG2, ex_fZ1, ex_fG1, ex_fSum], 12,
          [Some (NodeValueOf ex_fSum), Some (NodeValueOf ex_fZ1), Some (NodeValueOf ex_fZ2)])"
  unfolding ex_fan_order
  by (simp add: ex_fan_def gradStep_def getGradient_def new_def push_back_def
      addGradient_def createArithmetic_def addNode_def Let_def
      ex_fA_def ex_fO1_def ex_fO2_def ex_fR1_def ex_fS1_def ex_fR2_def ex_fS2_def
      ex_fZ1_def ex_fZ2_def ex_fG1_def ex_fG2_def ex_fSum_def)

text \<open>
  C3, as stated, fails. In the graph \<open>ex_fan\<close> the variable \<open>A\<close> feeds two reshape nodes,
  each saved. The second contribution to the gradient of \<open>A\<close> makes \<open>addGradient\<close> build
  the accumulation node \<open>ex_fSum\<close> through \<^verbatim>\<open>createArithmetic\<close>: when the sweep ends, and
  before anything is committed, \<open>ex_fSum\<close> is among the nodes of the graph and is not in
  the staging list.
\<close>

theorem staged_commit_counterexample:
  "map_sum id nodes (sweep (rev (getPostOrder ex_fan)) ex_fan) = Inr (nodes ex_fan @ [ex_fSum])
   \<and> map_sum id toAppend (sweep (rev (getPostOrder ex_fan)) ex_fan)
       = Inr [ex_fZ2, ex_fG2, ex_fZ1, ex_fG1]
   \<and> ex_fSum \<notin> set [ex_fZ2, ex_fG2, ex_fZ1, ex_fG1]
   \<and> nodes ex_fan @ [ex_fSum] \<noteq> nodes ex_fan"
proof -
  obtain s where s: "sweep (rev (getPostOrder ex_fan)) ex_fan = Inr s"
    using ex_fan_sweep by (cases "sweep (rev (getPostOrder ex_fan)) ex_fan") auto
  with ex_fan_sweep have "nodes s = nodes ex_fan @ [ex_fSum]"
    "toAppend s = [ex_fZ2, ex_fG2, ex_fZ1, ex_fG1]"
    by simp_all
  moreover have "ex_fSum \<notin> set [ex_fZ2, ex_fG2, ex_fZ1, ex_fG1]"
    by (simp add: ex_fSum_def ex_fZ1_def ex_fZ2_def ex_fG1_def ex_fG2_def)
  ultimately show ?thesis
    using s by simp
qed

lemma generateGradientNodes_phases:
  "generateGradientNodes G conf mode =
     (case sweep (rev (getPostOrder G))
             (G\<lparr>gradMap := Map.empty, toAppend := [], newVars := []\<rparr>) of
        Inl e \<Rightarrow> Inl e
      | Inr s1 \<Rightarrow>
          (case updateLoop conf mode (vars s1) s1 of
             Inl e \<Rightarrow> Inl e
           | Inr s2 \<Rightarrow> Inr (commit s2)))"
  by (simp add: generateGradientNodes_def getPostOrder_locals Let_def)

text \<open>
  C3, amended. In a run that returns: during the sweep the variables of the graph are
  unchanged and its nodes only grow, by accumulation nodes named \<open>updateGrad\<close>; during
  the update loop they only grow by the save nodes and variables of the debug snapshots
  (none outside mode \<open>TrainDebug\<close>); then the staged nodes are appended, and then the
  staged variables. The nodes and variables the graph had are a prefix of what it has at
  the end. Every object allocated by the run is a staged node, a staged variable, an
  accumulation node, a snapshot node or variable, or a slice; the staged ones were all
  allocated by the run.
\<close>

theorem staged_commit:
  assumes "generateGradientNodes G conf mode = Inr s'"
  shows "\<exists>s1 s2 adds saves dests hs.
      sweep (rev (getPostOrder G)) (G\<lparr>gradMap := Map.empty, toAppend := [], newVars := []\<rparr>)
        = Inr s1
      \<and> updateLoop conf mode (vars s1) s1 = Inr s2 \<and> s' = commit s2
      \<and> vars s1 = vars G \<and> nodes s1 = nodes G @ adds
      \<and> (\<forall>X\<in>set adds. getKind X = ArithmeticNodeKind \<and> getName X = ''updateGrad'')
      \<and> vars s2 = vars G @ dests \<and> nodes s2 = nodes G @ adds @ saves
      \<and> (\<forall>X\<in>set saves. getKind X = SaveNodeKind)
      \<and> (\<forall>X\<in>set dests. getKind X = VariableNodeKind)
      \<and> (mode \<noteq> TrainDebug \<longrightarrow> saves = [] \<and> dests = [])
      \<and> nodes s' = nodes G @ adds @ saves @ toAppend s2
      \<and> vars s' = vars G @ dests @ newVars s2
      \<and> heap s' = heap G @ hs
      \<and> set (toAppend s2) \<subseteq> set hs \<and> set (newVars s2) \<subseteq> set hs
      \<and> (\<forall>X\<in>set hs. X \<in> set (toAppend s2) \<or> X \<in> set (newVars s2) \<or> X \<in> set adds
            \<or> X \<in> set saves \<or> X \<in> set dests \<or> getKind X = SliceNodeKind)"
proof -
  let ?s0 = "G\<lparr>gradMap := Map.empty, toAppend := [], newVars := []\<rparr>"
  from assms obtain s1 s2 where
    sw: "sweep (rev (getPostOrder G)) ?s0 = Inr s1"
    and up: "updateLoop conf mode (vars s1) s1 = Inr s2"
    and s': "s' = commit s2"
    by (auto simp: generateGradientNodes_phases split: sum.splits)
  from sweepFrame_sweep [OF sw] obtain adds st hs1 where
    a: "vars s1 = vars G" "newVars s1 = []" "nodes s1 = nodes G @ adds" "toAppend s1 = st"
      "heap s1 = heap G @ hs1" "set st \<subseteq> set hs1"
      "\<forall>X\<in>set adds. getKind X = ArithmeticNodeKind \<and> getName X = ''updateGrad''"
      "\<forall>X\<in>set hs1. X \<in> set st \<or> X \<in> set adds \<or> getKind X = SliceNodeKind"
    unfolding sweepFrame_def by auto
  from updateFrame_updateLoop [OF up] obtain saves dests gs sg hs2 where
    b: "nodes s2 = nodes s1 @ saves" "vars s2 = vars s1 @ dests"
      "newVars s2 = newVars s1 @ gs" "toAppend s2 = toAppend s1 @ sg" "heap s2 = heap s1 @ hs2"
      "\<forall>X\<in>set saves. getKind X = SaveNodeKind" "\<forall>X\<in>set dests. getKind X = VariableNodeKind"
      "set hs2 = set saves \<union> set dests \<union> set gs \<union> set sg"
      "mode \<noteq> TrainDebug \<longrightarrow> saves = [] \<and> dests = []"
    unfolding updateFrame_def by blast
  show ?thesis
  proof (intro exI conjI)
    show "sweep (rev (getPostOrder G)) ?s0 = Inr s1" by (rule sw)
    show "updateLoop conf mode (vars s1) s1 = Inr s2" by (rule up)
    show "s' = commit s2" by (rule s')
    show "vars s1 = vars G" by (rule a(1))
    show "nodes s1 = nodes G @ adds" by (rule a(3))
    show "\<forall>X\<in>set adds. getKind X = ArithmeticNodeKind \<and> getName X = ''updateGrad''"
      by (rule a(7))
    show "vars s2 = vars G @ dests" using a(1) b(2) by simp
    show "nodes s2 = nodes G @ adds @ saves" using a(3) b(1) by simp
    show "\<forall>X\<in>set saves. getKind X = SaveNodeKind" by (rule b(6))
    show "\<forall>X\<in>set dests. getKind X = VariableNodeKind" by (rule b(7))
    show "mode \<noteq> TrainDebug \<longrightarrow> saves = [] \<and> dests = []" by (rule b(9))
    show "nodes s' = nodes G @ adds @ saves @ toAppend s2"
      using a(3) b(1) by (simp add: s' commit_eq)
    show "vars s' = vars G @ dests @ newVars s2"
      using a(1) b(2) by (simp add: s' commit_eq)
    show "heap s' = heap G @ (hs1 @ hs2)"
      using a(5) b(5) by (simp add: s' commit_eq)
    show "set (toAppend s2) \<subseteq> set (hs1 @ hs2)"
      using a(4,6) b(4,8) by auto
    show "set (newVars s2) \<subseteq> set (hs1 @ hs2)"
      using a(2) b(3,8) by auto
    show "\<forall>X\<in>set (hs1 @ hs2). X \<in> set (toAppend s2) \<or> X \<in> set (newVars s2) \<or> X \<in> set adds
            \<or> X \<in> set saves \<or> X \<in> set dests \<or> getKind X = SliceNodeKind"
      using a(2,4,8) b(3,4,8) by auto
  qed
qed

lemma ex_fan_run:
  "map_sum id (\<lambda>s. (vars s, nodes s)) (generateGradientNodes ex_fan ex_conf Train)
   = Inr (vars ex_fan @ [ex_fGsum],
          nodes ex_fan @ [ex_fSum] @ [ex_fZ2, ex_fG2, ex_fZ1, ex_fG1, ex_fSGD])"
  unfolding generateGradientNodes_phases ex_fan_order
  by (simp add: ex_fan_def gradStep_def getGradient_def new_def push_back_def
      addGradient_def createArithmetic_def addNode_def addVar_def Let_def commit_def
      updateStep_def saveGradient_def newVariable_def getVoidTy_def ex_conf_def
      ex_fA_def ex_fO1_def ex_fO2_def ex_fR1_def ex_fS1_def ex_fR2_def ex_fS2_def
      ex_fZ1_def ex_fZ2_def ex_fG1_def ex_fG2_def ex_fSum_def ex_fGsum_def ex_fSGD_def)

theorem staged_commit_witness:
  "\<exists>s'. generateGradientNodes ex_fan ex_conf Train = Inr s'
      \<and> nodes s' = nodes ex_fan @ [ex_fSum] @ [ex_fZ2, ex_fG2, ex_fZ1, ex_fG1, ex_fSGD]
      \<and> vars s' = vars ex_fan @ [ex_fGsum]
      \<and> set [ex_fZ2, ex_fG2, ex_fZ1, ex_fG1, ex_fSGD] \<subseteq> set (heap s')"
proof -
  obtain s' where run: "generateGradientNodes ex_fan ex_conf Train = Inr s'"
    using ex_fan_run by (cases "generateGradientNodes ex_fan ex_conf Train") auto
  with ex_fan_run have nv: "vars s' = vars ex_fan @ [ex_fGsum]"
    "nodes s' = nodes ex_fan @ [ex_fSum] @ [ex_fZ2, ex_fG2, ex_fZ1, ex_fG1, ex_fSGD]"
    by simp_all
  from staged_commit [OF run] obtain s1 s2 adds saves dests hs where
    body: "sweep (rev (getPostOrder ex_fan))
        (ex_fan\<lparr>gradMap := Map.empty, toAppend := [], newVars := []\<rparr>) = Inr s1
      \<and> updateLoop ex_conf Train (vars s1) s1 = Inr s2 \<and> s' = commit s2
      \<and> vars s1 = vars ex_fan \<and> nodes s1 = nodes ex_fan @ adds
      \<and> (\<forall>X\<in>set adds. getKind X = ArithmeticNodeKind \<and> getName X = ''updateGrad'')
      \<and> vars s2 = vars ex_fan @ dests \<and> nodes s2 = nodes ex_fan @ adds @ saves
      \<and> (\<forall>X\<in>set saves. getKind X = SaveNodeKind)
      \<and> (\<forall>X\<in>set dests. getKind X = VariableNodeKind)
      \<and> (Train \<noteq> TrainDebug \<longrightarrow> saves = [] \<and> dests = [])
      \<and> nodes s' = nodes ex_fan @ adds @ saves @ toAppend s2
      \<and> vars s' = vars ex_fan @ dests @ newVars s2
      \<and> heap s' = heap ex_fan @ hs
      \<and> set (toAppend s2) \<subseteq> set hs \<and> set (newVars s2) \<subseteq> set hs
      \<and> (\<forall>X\<in>set hs. X \<in> set (toAppend s2) \<or> X \<in> set (newVars s2) \<or> X \<in> set adds
            \<or> X \<in> set saves \<or> X \<in> set dests \<or> getKind X = SliceNodeKind)"
    by (elim exE) (rule that)
  from body have sw: "sweep (rev (getPostOrder ex_fan))
           (ex_fan\<lparr>gradMap := Map.empty, toAppend := [], newVars := []\<rparr>) = Inr s1"
    and r: "nodes s1 = nodes ex_fan @ adds" "Train \<noteq> TrainDebug \<longrightarrow> saves = [] \<and> dests = []"
      "nodes s' = nodes ex_fan @ adds @ saves @ toAppend s2"
      "heap s' = heap ex_fan @ hs" "set (toAppend s2) \<subseteq> set hs"
    by - (elim conjE, assumption)+
  have e: "ex_fan\<lparr>gradMap := Map.empty, toAppend := [], newVars := []\<rparr> = ex_fan"
    by (simp add: ex_fan_def)
  from sw have sw': "sweep (rev (getPostOrder ex_fan)) ex_fan = Inr s1"
    unfolding e .
  from ex_fan_sweep have "nodes s1 = nodes ex_fan @ [ex_fSum]"
    unfolding sw' by simp
  with r(1) have "adds = [ex_fSum]"
    by simp
  with r(2,3) nv(2) have "toAppend s2 = [ex_fZ2, ex_fG2, ex_fZ1, ex_fG1, ex_fSGD]"
    by simp
  with r(4,5) have "set [ex_fZ2, ex_fG2, ex_fZ1, ex_fG1, ex_fSGD] \<subseteq> set (heap s')"
    by simp
  with run nv show ?thesis
    by blast
qed

subsection \<open>The traversal order and the backward sweep\<close>

lemma depOrdered_snoc:
  "depOrdered seen (xs @ [N]) \<longleftrightarrow>
     depOrdered seen xs \<and> N \<notin> set seen \<union> set xs
     \<and> fst ` set (operands N) \<subseteq> set seen \<union> set xs"
  by (induction xs arbitrary: seen) auto

lemma depOrdered_append:
  "depOrdered seen (xs @ ys) \<longleftrightarrow> depOrdered seen xs \<and> depOrdered (seen @ xs) ys"
  by (induction xs arbitrary: seen) auto

lemma depOrdered_distinct: "depOrdered seen xs \<Longrightarrow> distinct xs \<and> set seen \<inter> set xs = {}"
proof (induction xs arbitrary: seen)
  case Nil
  show ?case by simp
next
  case (Cons a xs)
  from Cons.prems have "depOrdered (seen @ [a]) xs" and a: "a \<notin> set seen"
    by simp_all
  from Cons.IH [OF this(1)] have "distinct xs" "set (seen @ [a]) \<inter> set xs = {}"
    by simp_all
  with a show ?case by auto
qed

lemma depOrdered_split:
  "depOrdered seen (ys @ N # zs) \<Longrightarrow> fst ` set (operands N) \<subseteq> set seen \<union> set ys"
  by (simp add: depOrdered_append)

lemma size_operand: "V \<in> set (operands N) \<Longrightarrow> size (fst V) < size N"
proof -
  have in_list: "size (fst W) < Suc (size_list (size_prod size (\<lambda>x. 0)) Ws)"
    if "W \<in> set Ws" for W :: NodeValue and Ws
    using that by (induction Ws) (auto simp: less_Suc_eq_le split: prod.splits)
  assume "V \<in> set (operands N)"
  then show ?thesis
    by (cases N) (auto dest: in_list)
qed

lemma visit_fold_props:
  assumes IH: "\<And>V p. V \<in> set Vs \<Longrightarrow> depOrdered [] p \<Longrightarrow>
      depOrdered [] (visit (fst V) p) \<and> fst V \<in> set (visit (fst V) p)
      \<and> (\<exists>ext. visit (fst V) p = p @ ext \<and> (\<forall>M\<in>set ext. size M \<le> size (fst V)))"
    and "depOrdered [] post"
  shows "depOrdered [] (foldl (\<lambda>p V. visit (fst V) p) post Vs)
      \<and> fst ` set Vs \<subseteq> set (foldl (\<lambda>p V. visit (fst V) p) post Vs)
      \<and> (\<exists>ext. foldl (\<lambda>p V. visit (fst V) p) post Vs = post @ ext
            \<and> (\<forall>M\<in>set ext. \<exists>V\<in>set Vs. size M \<le> size (fst V)))"
  using assms
proof (induction Vs arbitrary: post)
  case Nil
  then show ?case by simp
next
  case (Cons V Vs)
  let ?p = "visit (fst V) post"
  from Cons.prems(1) [of V post] Cons.prems(2) obtain ext where
    v: "depOrdered [] ?p" "fst V \<in> set ?p" "?p = post @ ext" "\<forall>M\<in>set ext. size M \<le> size (fst V)"
    by auto
  have "\<And>W p. W \<in> set Vs \<Longrightarrow> depOrdered [] p \<Longrightarrow>
      depOrdered [] (visit (fst W) p) \<and> fst W \<in> set (visit (fst W) p)
      \<and> (\<exists>ext. visit (fst W) p = p @ ext \<and> (\<forall>M\<in>set ext. size M \<le> size (fst W)))"
    using Cons.prems(1) by simp
  from Cons.IH [OF this v(1)] obtain ext' where
    r: "depOrdered [] (foldl (\<lambda>p V. visit (fst V) p) ?p Vs)"
      "fst ` set Vs \<subseteq> set (foldl (\<lambda>p V. visit (fst V) p) ?p Vs)"
      "foldl (\<lambda>p V. visit (fst V) p) ?p Vs = ?p @ ext'"
      "\<forall>M\<in>set ext'. \<exists>V\<in>set Vs. size M \<le> size (fst V)"
    by auto
  have "foldl (\<lambda>p V. visit (fst V) p) post (V # Vs) = post @ (ext @ ext')"
    using r(3) v(3) by simp
  moreover have "\<forall>M\<in>set (ext @ ext'). \<exists>W\<in>set (V # Vs). size M \<le> size (fst W)"
    using v(4) r(4) by auto
  moreover have "fst ` set (V # Vs) \<subseteq> set (foldl (\<lambda>p V. visit (fst V) p) post (V # Vs))"
    using r(2,3) v(2) by auto
  ultimately show ?case
    using r(1) by auto
qed

lemma visit_props:
  "depOrdered [] post \<Longrightarrow>
     depOrdered [] (visit N post) \<and> N \<in> set (visit N post)
     \<and> (\<exists>ext. visit N post = post @ ext \<and> (\<forall>M\<in>set ext. size M \<le> size N))"
proof (induction N post rule: visit.induct)
  case (1 N post)
  show ?case
  proof (cases "N \<in> set post")
    case True
    with "1.prems" show ?thesis
      by (simp add: visit.simps)
  next
    case False
    let ?r = "foldl (\<lambda>p V. visit (fst V) p) post (operands N)"
    have IH: "\<And>V p. V \<in> set (operands N) \<Longrightarrow> depOrdered [] p \<Longrightarrow>
      depOrdered [] (visit (fst V) p) \<and> fst V \<in> set (visit (fst V) p)
      \<and> (\<exists>ext. visit (fst V) p = p @ ext \<and> (\<forall>M\<in>set ext. size M \<le> size (fst V)))"
      using "1.IH" [OF False] by blast
    have "depOrdered [] ?r \<and> fst ` set (operands N) \<subseteq> set ?r
        \<and> (\<exists>ext. ?r = post @ ext
              \<and> (\<forall>M\<in>set ext. \<exists>V\<in>set (operands N). size M \<le> size (fst V)))"
    proof (rule visit_fold_props)
      fix V p
      assume "V \<in> set (operands N)" "depOrdered [] p"
      then show "depOrdered [] (visit (fst V) p) \<and> fst V \<in> set (visit (fst V) p)
        \<and> (\<exists>ext. visit (fst V) p = p @ ext \<and> (\<forall>M\<in>set ext. size M \<le> size (fst V)))"
        by (rule IH)
    next
      show "depOrdered [] post" by (rule "1.prems")
    qed
    then obtain ext where
      r: "depOrdered [] ?r" "fst ` set (operands N) \<subseteq> set ?r" "?r = post @ ext"
        "\<forall>M\<in>set ext. \<exists>V\<in>set (operands N). size M \<le> size (fst V)"
      by blast
    have small: "\<forall>M\<in>set ext. size M < size N"
      using r(4) size_operand by fastforce
    then have "N \<notin> set ext" by auto
    with False r(3) have notin: "N \<notin> set ?r" by simp
    have eq: "visit N post = ?r @ [N]"
      using False by (simp add: visit.simps)
    have "depOrdered [] (?r @ [N])"
      using r(1,2) notin by (simp add: depOrdered_snoc)
    moreover have "?r @ [N] = post @ (ext @ [N])"
      using r(3) by simp
    moreover have "\<forall>M\<in>set (ext @ [N]). size M \<le> size N"
      using small by auto
    ultimately show ?thesis
      unfolding eq by auto
  qed
qed

lemma visit_list_props:
  "depOrdered [] post \<Longrightarrow>
     depOrdered [] (foldl (\<lambda>p N. visit N p) post Ns)
     \<and> set post \<union> set Ns \<subseteq> set (foldl (\<lambda>p N. visit N p) post Ns)"
proof (induction Ns arbitrary: post)
  case Nil
  then show ?case by simp
next
  case (Cons N Ns)
  from visit_props [OF Cons.prems, of N] obtain ext where
    v: "depOrdered [] (visit N post)" "N \<in> set (visit N post)" "visit N post = post @ ext"
    by blast
  from Cons.IH [OF v(1)] v(2,3) show ?case
    by auto
qed

lemma getPostOrder_props:
  "depOrdered [] (getPostOrder G) \<and> set (vars G) \<union> set (nodes G) \<subseteq> set (getPostOrder G)"
proof -
  have "depOrdered [] []" by simp
  from visit_list_props [OF this, of "vars G"]
  have 1: "depOrdered [] (foldl (\<lambda>p N. visit N p) [] (vars G))"
    and 2: "set (vars G) \<subseteq> set (foldl (\<lambda>p N. visit N p) [] (vars G))"
    by auto
  from visit_list_props [OF 1, of "nodes G"] 2 show ?thesis
    unfolding getPostOrder_def by auto
qed

lemma consumers_later:
  assumes "depOrdered [] xs" and "xs = ys @ N # zs" and "M \<in> set xs"
    and "N \<in> fst ` set (operands M)"
  shows "M \<in> set zs"
proof -
  from assms(1) have d: "distinct xs"
    using depOrdered_distinct by blast
  from assms(3) obtain us ws where split: "xs = us @ M # ws"
    by (auto simp: in_set_conv_decomp)
  with assms(1) have "fst ` set (operands M) \<subseteq> set us"
    using depOrdered_split [of "[]" us M ws] by simp
  with assms(4) have Nus: "N \<in> set us" by auto
  have "M \<noteq> N"
    using assms(4) size_operand [of _ M] by fastforce
  show ?thesis
  proof (rule ccontr)
    assume "M \<notin> set zs"
    with assms(2,3) \<open>M \<noteq> N\<close> have "M \<in> set ys" by auto
    then obtain a b where "ys = a @ M # b"
      by (auto simp: in_set_conv_decomp)
    with assms(2) have "xs = a @ M # (b @ N # zs)" by simp
    with split d have "us = a"
      by (metis append_Cons_eq_iff distinct.simps(2) distinct_append not_distinct_conv_prefix)
    with Nus \<open>ys = a @ M # b\<close> assms(2) d show False
      by auto
  qed
qed

lemma kindOf_other:
  "kindOf c \<noteq> VariableNodeKind" "kindOf c \<noteq> SaveNodeKind" "kindOf c \<noteq> ReshapeNodeKind"
  "kindOf c \<noteq> TransposeNodeKind" "kindOf c \<noteq> SliceNodeKind" "kindOf c \<noteq> ConcatNodeKind"
  by (cases c; simp)+

lemma operands_Save: "getKind N = SaveNodeKind \<Longrightarrow> operands N = [getInput N, getVariable N]"
  by (cases N) (simp_all add: kindOf_other)

lemma operands_unary:
  "getKind N \<in> {ReshapeNodeKind, TransposeNodeKind, SliceNodeKind} \<Longrightarrow>
   operands N = [getInput N]"
  by (cases N) (simp_all add: kindOf_other)

lemma operands_Concat: "getKind N = ConcatNodeKind \<Longrightarrow> operands N = getInputs N"
  by (cases N) (simp_all add: kindOf_other)

lemma dom_addGradient: "dom (gradMap (addGradient v g s)) = insert v (dom (gradMap s))"
  using addGradient_frame [of v g s] by blast

lemma dom_addGradients:
  "dom (gradMap (addGradients Vs X i s)) = set Vs \<union> dom (gradMap s)"
  by (induction Vs arbitrary: i s) (auto simp: dom_addGradient)

lemma dom_concatLoop:
  "concatLoop inputs outputG d offsets s = Inr s' \<Longrightarrow>
   dom (gradMap s') = set inputs \<union> dom (gradMap s)"
proof (induction inputs arbitrary: offsets s)
  case Nil
  then show ?case by simp
next
  case (Cons N inputs)
  let ?X = "SliceNode (fresh s) ''extract'' (getType (fst N)) outputG offsets"
  let ?s1 = "s\<lparr>fresh := Suc (fresh s), heap := heap s @ [?X]\<rparr>"
  let ?s2 = "addGradient N (NodeValueOf ?X) ?s1"
  from Cons.prems have rest: "concatLoop inputs outputG d
      (offsets[d := offsets ! d + dims (getType (fst N)) ! d]) ?s2 = Inr s'"
    by (simp add: new_def split: if_splits)
  from Cons.IH [OF rest] show ?case
    by (auto simp: dom_addGradient)
qed

lemma gradMap_push_back: "gradMap (push_back X s) = gradMap s"
  by (simp add: push_back_def)

lemma gradStep_dom:
  assumes "gradStep N s = Inr s'"
  shows "dom (gradMap s') =
     dom (gradMap s) \<union> (if getKind N = VariableNodeKind then {} else set (operands N))"
proof -
  consider
      (var) "getKind N = VariableNodeKind"
    | (deleg) "getKind N \<in> {ConvolutionNodeKind, PoolNodeKind, FullyConnectedNodeKind,
                BatchNormalizationNodeKind, LocalResponseNormalizationNodeKind,
                SoftMaxNodeKind, RegressionNodeKind, ArithmeticNodeKind, ReluNodeKind,
                SigmoidNodeKind, TanhNodeKind}"
    | (save) "getKind N = SaveNodeKind"
    | (unary) "getKind N \<in> {ReshapeNodeKind, TransposeNodeKind, SliceNodeKind}"
    | (concat) "getKind N = ConcatNodeKind"
    | (other) "getKind N \<notin> ruleKinds" "getKind N \<noteq> VariableNodeKind"
    unfolding ruleKinds_def by blast
  then show ?thesis
  proof cases
    case var
    with assms show ?thesis
      by (simp add: gradStep_Variable)
  next
    case deleg
    with assms obtain outputG where og: "getGradient (getResult N) s = Inr outputG"
      by (auto simp: gradStep_def getGrad_def split: sum.splits)
    let ?X = "GradNode (fresh s) (getKind N) (getName N) (operands N) outputG"
    let ?s1 = "s\<lparr>fresh := Suc (fresh s), heap := heap s @ [?X]\<rparr>"
    have "s' = push_back ?X (addGradients (operands N) ?X 0 ?s1)"
      using assms deleg og by (auto simp: gradStep_def getGrad_def new_def)
    with deleg show ?thesis
      by (auto simp: gradMap_push_back dom_addGradients)
  next
    case save
    let ?X = "ZeroNode (fresh s) (getName N) (getType (fst (getInput N)))"
    let ?s2 = "s\<lparr>fresh := Suc (fresh s), heap := heap s @ [?X], toAppend := toAppend s @ [?X]\<rparr>"
    have "s' = addGradient (getVariable N) (NodeValueOf ?X)
                     (addGradient (getInput N) (NodeValueOf ?X) ?s2)"
      using assms save by (simp add: gradStep_def new_def push_back_def)
    with save show ?thesis
      by (auto simp: dom_addGradient operands_Save)
  next
    case unary
    then have ops: "operands N = [getInput N]"
      by (rule operands_unary)
    from unary assms obtain X s2 where "s' = addGradient (getInput N) X s2"
      "gradMap s2 = gradMap s"
      by (auto simp: gradStep_def Let_def new_def push_back_def getGradient_def
          split: sum.splits option.splits)
    with unary ops show ?thesis
      by (auto simp: dom_addGradient)
  next
    case concat
    with assms obtain outputG where
      "concatLoop (getInputs N) outputG (getDim N) (replicate (length (dims (getType N))) 0) s
        = Inr s'"
      by (auto simp: gradStep_def split: sum.splits)
    from dom_concatLoop [OF this] concat show ?thesis
      by (auto simp: operands_Concat)
  next
    case other
    with assms show ?thesis
      by (simp add: gradStep_other_kind)
  qed
qed

lemma sweep_dom:
  "sweep Ns s = Inr s' \<Longrightarrow>
   dom (gradMap s) \<subseteq> dom (gradMap s')
   \<and> (\<forall>M\<in>set Ns. getKind M \<noteq> VariableNodeKind \<longrightarrow> set (operands M) \<subseteq> dom (gradMap s'))"
proof (induction Ns arbitrary: s)
  case Nil
  then show ?case by simp
next
  case (Cons N Ns)
  then obtain s1 where s1: "gradStep N s = Inr s1" "sweep Ns s1 = Inr s'"
    by (auto split: sum.splits)
  from gradStep_dom [OF s1(1)] Cons.IH [OF s1(2)] show ?case
    by (auto split: if_splits)
qed

lemma reverseShuffleLoop_total:
  assumes "\<forall>x\<in>set shuffle. x < length rs"
  shows "\<exists>rs'. reverseShuffleLoop shuffle i rs = Inr rs'"
  using assms
proof (induction shuffle i rs rule: reverseShuffleLoop.induct)
  case (1 shuffle i rs)
  show ?case
  proof (cases "i < length shuffle")
    case False
    then show ?thesis
      by (subst reverseShuffleLoop.simps) simp
  next
    case True
    with "1.prems" have inb: "shuffle ! i < length rs" by simp
    have "\<exists>rs'. reverseShuffleLoop shuffle (i + 1) (rs[shuffle ! i := i]) = Inr rs'"
      using "1.IH" [OF True inb] "1.prems" by simp
    with True inb show ?thesis
      by (subst reverseShuffleLoop.simps) simp
  qed
qed

lemma gradStep_succeeds:
  assumes "getKind N \<in> insert VariableNodeKind ruleKinds"
    and "getKind N \<in> ruleKinds \<and> getKind N \<noteq> SaveNodeKind
         \<longrightarrow> gradMap s (getResult N) \<noteq> None"
    and "getKind N = TransposeNodeKind
         \<longrightarrow> (\<forall>x\<in>set (getShuffle N). x < length (getShuffle N))"
    and "getKind N = ConcatNodeKind
         \<longrightarrow> getDim N < length (dims (getType N))
             \<and> (\<forall>I\<in>set (getInputs N). getDim N < length (dims (getType (fst I))))"
  shows "\<exists>s'. gradStep N s = Inr s'"
proof -
  from assms(1) consider
      (var) "getKind N = VariableNodeKind"
    | (deleg) "getKind N \<in> {ConvolutionNodeKind, PoolNodeKind, FullyConnectedNodeKind,
                BatchNormalizationNodeKind, LocalResponseNormalizationNodeKind,
                SoftMaxNodeKind, RegressionNodeKind, ArithmeticNodeKind, ReluNodeKind,
                SigmoidNodeKind, TanhNodeKind}"
    | (save) "getKind N = SaveNodeKind"
    | (reshape) "getKind N = ReshapeNodeKind"
    | (transpose) "getKind N = TransposeNodeKind"
    | (slice) "getKind N = SliceNodeKind"
    | (concat) "getKind N = ConcatNodeKind"
    unfolding ruleKinds_def by blast
  then show ?thesis
  proof cases
    case var
    then show ?thesis by (simp add: gradStep_Variable)
  next
    case deleg
    with assms(2) obtain g where "gradMap s (getResult N) = Some g"
      unfolding ruleKinds_def by auto
    with deleg show ?thesis
      by (auto simp: gradStep_def getGrad_def getGradient_def Let_def split: prod.splits)
  next
    case save
    then show ?thesis
      by (simp add: gradStep_def Let_def split: prod.splits)
  next
    case reshape
    with assms(2) obtain g where "gradMap s (getResult N) = Some g"
      unfolding ruleKinds_def by auto
    with reshape show ?thesis
      by (simp add: gradStep_def getGradient_def Let_def split: prod.splits)
  next
    case transpose
    with assms(2) obtain g where g: "gradMap s (getResult N) = Some g"
      unfolding ruleKinds_def by auto
    from transpose assms(3) obtain rs where
      "reverseShuffleLoop (getShuffle N) 0 (getShuffle N) = Inr rs"
      using reverseShuffleLoop_total [of "getShuffle N" "getShuffle N" 0] by auto
    with transpose g show ?thesis
      by (simp add: gradStep_def getGradient_def Let_def split: prod.splits)
  next
    case slice
    with assms(2) obtain g where "gradMap s (getResult N) = Some g"
      unfolding ruleKinds_def by auto
    with slice show ?thesis
      by (simp add: gradStep_def getGradient_def new_def Let_def split: prod.splits)
  next
    case concat
    with assms(2) obtain g where g: "gradMap s (getResult N) = Some g"
      unfolding ruleKinds_def by auto
    from concat assms(4) have d: "getDim N < length (replicate (length (dims (getType N))) (0 :: size_t))"
      and i: "\<forall>I\<in>set (getInputs N). getDim N < length (dims (getType (fst I)))"
      by simp_all
    from concatLoop_slices [OF d i, of g s] obtain s' where
      "concatLoop (getInputs N) g (getDim N) (replicate (length (dims (getType N))) 0) s = Inr s'"
      by blast
    with concat g show ?thesis
      by (simp add: gradStep_def getGradient_def)
  qed
qed

lemma gradStep_missing:
  assumes "gradStep N s = Inl MissingGradient"
  shows "getKind N \<in> ruleKinds \<and> getKind N \<noteq> SaveNodeKind \<and> gradMap s (getResult N) = None"
proof -
  consider
      (var) "getKind N = VariableNodeKind"
    | (deleg) "getKind N \<in> {ConvolutionNodeKind, PoolNodeKind, FullyConnectedNodeKind,
                BatchNormalizationNodeKind, LocalResponseNormalizationNodeKind,
                SoftMaxNodeKind, RegressionNodeKind, ArithmeticNodeKind, ReluNodeKind,
                SigmoidNodeKind, TanhNodeKind}"
    | (save) "getKind N = SaveNodeKind"
    | (reshape) "getKind N = ReshapeNodeKind"
    | (transpose) "getKind N = TransposeNodeKind"
    | (slice) "getKind N = SliceNodeKind"
    | (concat) "getKind N = ConcatNodeKind"
    | (other) "getKind N \<notin> ruleKinds" "getKind N \<noteq> VariableNodeKind"
    unfolding ruleKinds_def by blast
  then show ?thesis
  proof cases
    case var
    with assms show ?thesis by (simp add: gradStep_Variable)
  next
    case deleg
    with assms show ?thesis
      by (auto simp: gradStep_def getGrad_def getGradient_def ruleKinds_def Let_def
          split: sum.splits prod.splits option.splits)
  next
    case save
    with assms show ?thesis
      by (simp add: gradStep_def Let_def split: prod.splits)
  next
    case reshape
    with assms show ?thesis
      by (auto simp: gradStep_def getGradient_def ruleKinds_def Let_def
          split: sum.splits prod.splits option.splits)
  next
    case transpose
    with assms show ?thesis
      by (auto simp: gradStep_def getGradient_def ruleKinds_def Let_def
          split: sum.splits prod.splits option.splits dest: reverseShuffleLoop_error)
  next
    case slice
    with assms show ?thesis
      by (auto simp: gradStep_def getGradient_def ruleKinds_def new_def Let_def
          split: sum.splits prod.splits option.splits)
  next
    case concat
    with assms show ?thesis
      by (auto simp: gradStep_def getGradient_def ruleKinds_def Let_def
          split: sum.splits prod.splits option.splits dest: concatLoop_error)
  next
    case other
    with assms show ?thesis
      by (simp add: gradStep_other_kind)
  qed
qed

subsection \<open>What the dispatch does with a node\<close>

lemma gradStep_lookup:
  assumes "getKind N \<in> ruleKinds" and "getKind N \<noteq> SaveNodeKind"
    and "gradMap s (getResult N) = None"
  shows "gradStep N s = Inl MissingGradient"
proof -
  from assms(1,2) consider
      (deleg) "getKind N \<in> {ConvolutionNodeKind, PoolNodeKind, FullyConnectedNodeKind,
                BatchNormalizationNodeKind, LocalResponseNormalizationNodeKind,
                SoftMaxNodeKind, RegressionNodeKind, ArithmeticNodeKind, ReluNodeKind,
                SigmoidNodeKind, TanhNodeKind}"
    | (reshape) "getKind N = ReshapeNodeKind"
    | (transpose) "getKind N = TransposeNodeKind"
    | (slice) "getKind N = SliceNodeKind"
    | (concat) "getKind N = ConcatNodeKind"
    unfolding ruleKinds_def by blast
  then show ?thesis
  proof cases
    case deleg
    with assms(3) show ?thesis
      by (auto simp: gradStep_def getGrad_def getGradient_def)
  next
    case reshape
    with assms(3) show ?thesis
      by (simp add: gradStep_def getGradient_def)
  next
    case transpose
    with assms(3) show ?thesis
      by (simp add: gradStep_def getGradient_def)
  next
    case slice
    with assms(3) show ?thesis
      by (simp add: gradStep_def getGradient_def new_def)
  next
    case concat
    with assms(3) show ?thesis
      by (simp add: gradStep_def getGradient_def)
  qed
qed

lemma toAppend_addGradient: "toAppend (addGradient v g s) = toAppend s"
  using addGradient_frame [of v g s] by blast

lemma toAppend_addGradients: "toAppend (addGradients Vs X i s) = toAppend s"
  by (induction Vs arbitrary: i s) (simp_all add: toAppend_addGradient)

lemma toAppend_concatLoop:
  "concatLoop inputs outputG d offsets s = Inr s' \<Longrightarrow> toAppend s' = toAppend s"
proof (induction inputs arbitrary: offsets s)
  case Nil
  then show ?case by simp
next
  case (Cons N inputs)
  let ?X = "SliceNode (fresh s) ''extract'' (getType (fst N)) outputG offsets"
  let ?s1 = "s\<lparr>fresh := Suc (fresh s), heap := heap s @ [?X]\<rparr>"
  let ?s2 = "addGradient N (NodeValueOf ?X) ?s1"
  from Cons.prems have rest: "concatLoop inputs outputG d
      (offsets[d := offsets ! d + dims (getType (fst N)) ! d]) ?s2 = Inr s'"
    by (simp add: new_def split: if_splits)
  from Cons.IH [OF rest] show ?case
    by (simp add: toAppend_addGradient)
qed

text \<open>
  Registering a gradient built by the step keeps every gradient registered so far by the
  step among the objects the step has allocated (\<open>hs\<close>, after the free store \<open>base\<close> the
  step began with).
\<close>

lemma addGradient_new:
  assumes "heap s = base @ hs" and "fst g \<in> set hs"
    and "\<forall>w\<in>ks. \<exists>g'. gradMap s w = Some g' \<and> fst g' \<in> set hs"
  shows "\<exists>hs'. heap (addGradient v g s) = base @ hs' \<and> set hs \<subseteq> set hs'
           \<and> (\<forall>w\<in>insert v ks. \<exists>g'. gradMap (addGradient v g s) w = Some g' \<and> fst g' \<in> set hs')"
proof (cases "gradMap s v")
  case None
  have "heap (addGradient v g s) = base @ hs"
    and "\<forall>w\<in>insert v ks. \<exists>g'. gradMap (addGradient v g s) w = Some g' \<and> fst g' \<in> set hs"
    using assms by (cases g; auto simp: addGradient_None [OF None])+
  then show ?thesis
    by blast
next
  case (Some c)
  let ?A = "ArithmeticNode (fresh s) ''updateGrad'' c g Add"
  have "heap (addGradient v g s) = base @ (hs @ [?A])"
    and "\<forall>w\<in>insert v ks. \<exists>g'. gradMap (addGradient v g s) w = Some g' \<and> fst g' \<in> set (hs @ [?A])"
    using assms by (cases g; auto simp: addGradient_Some [OF Some])+
  moreover have "set hs \<subseteq> set (hs @ [?A])"
    by auto
  ultimately show ?thesis
    by blast
qed

lemma addGradients_new:
  assumes "heap s = base @ hs" and "X \<in> set hs"
    and "\<forall>w\<in>ks. \<exists>g'. gradMap s w = Some g' \<and> fst g' \<in> set hs"
  shows "\<exists>hs'. heap (addGradients Vs X i s) = base @ hs' \<and> set hs \<subseteq> set hs'
           \<and> (\<forall>w\<in>set Vs \<union> ks. \<exists>g'. gradMap (addGradients Vs X i s) w = Some g' \<and> fst g' \<in> set hs')"
  using assms
proof (induction Vs arbitrary: i s hs ks)
  case Nil
  then show ?case by auto
next
  case (Cons V Vs)
  from addGradient_new [OF Cons.prems(1), of "(X, i)" ks V] Cons.prems(2,3)
  obtain hs1 where 1: "heap (addGradient V (X, i) s) = base @ hs1" "set hs \<subseteq> set hs1"
    "\<forall>w\<in>insert V ks. \<exists>g'. gradMap (addGradient V (X, i) s) w = Some g' \<and> fst g' \<in> set hs1"
    by auto
  from Cons.prems(2) 1(2) have "X \<in> set hs1" by auto
  from Cons.IH [OF 1(1) this 1(3), of "Suc i"] obtain hs' where
    2: "heap (addGradients Vs X (Suc i) (addGradient V (X, i) s)) = base @ hs'"
      "set hs1 \<subseteq> set hs'"
      "\<forall>w\<in>set Vs \<union> insert V ks. \<exists>g'.
          gradMap (addGradients Vs X (Suc i) (addGradient V (X, i) s)) w = Some g' \<and> fst g' \<in> set hs'"
    by blast
  show ?case
  proof (intro exI conjI)
    show "heap (addGradients (V # Vs) X i s) = base @ hs'"
      using 2(1) by simp
    show "set hs \<subseteq> set hs'"
      using 1(2) 2(2) by auto
    show "\<forall>w\<in>set (V # Vs) \<union> ks. \<exists>g'. gradMap (addGradients (V # Vs) X i s) w = Some g' \<and> fst g' \<in> set hs'"
      using 2(3) by simp
  qed
qed

lemma concatLoop_new:
  assumes "concatLoop inputs outputG d offsets s = Inr s'"
    and "heap s = base @ hs"
    and "\<forall>w\<in>ks. \<exists>g'. gradMap s w = Some g' \<and> fst g' \<in> set hs"
  shows "\<exists>hs'. heap s' = base @ hs' \<and> set hs \<subseteq> set hs'
           \<and> (\<forall>w\<in>set inputs \<union> ks. \<exists>g'. gradMap s' w = Some g' \<and> fst g' \<in> set hs')"
  using assms
proof (induction inputs arbitrary: offsets s hs ks)
  case Nil
  then show ?case by auto
next
  case (Cons N inputs)
  let ?X = "SliceNode (fresh s) ''extract'' (getType (fst N)) outputG offsets"
  let ?s1 = "s\<lparr>fresh := Suc (fresh s), heap := heap s @ [?X]\<rparr>"
  let ?s2 = "addGradient N (NodeValueOf ?X) ?s1"
  from Cons.prems(1) have rest: "concatLoop inputs outputG d
      (offsets[d := offsets ! d + dims (getType (fst N)) ! d]) ?s2 = Inr s'"
    by (simp add: new_def split: if_splits)
  have h1: "heap ?s1 = base @ (hs @ [?X])"
    using Cons.prems(2) by simp
  have k1: "\<forall>w\<in>ks. \<exists>g'. gradMap ?s1 w = Some g' \<and> fst g' \<in> set (hs @ [?X])"
    using Cons.prems(3) by auto
  from addGradient_new [OF h1 _ k1, of "NodeValueOf ?X" N]
  obtain hs1 where 1: "heap ?s2 = base @ hs1" "set (hs @ [?X]) \<subseteq> set hs1"
    "\<forall>w\<in>insert N ks. \<exists>g'. gradMap ?s2 w = Some g' \<and> fst g' \<in> set hs1"
    by auto
  from Cons.IH [OF rest 1(1) 1(3)] obtain hs' where
    2: "heap s' = base @ hs'" "set hs1 \<subseteq> set hs'"
      "\<forall>w\<in>set inputs \<union> insert N ks. \<exists>g'. gradMap s' w = Some g' \<and> fst g' \<in> set hs'"
    by blast
  show ?case
  proof (intro exI conjI)
    show "heap s' = base @ hs'" by (rule 2(1))
    show "set hs \<subseteq> set hs'"
      using 1(2) 2(2) by auto
    show "\<forall>w\<in>set (N # inputs) \<union> ks. \<exists>g'. gradMap s' w = Some g' \<and> fst g' \<in> set hs'"
      using 2(3) by simp
  qed
qed

lemma gradStep_effect:
  assumes "gradStep N s = Inr s'" and "getKind N \<in> ruleKinds"
  shows "\<exists>st hs. toAppend s' = toAppend s @ st \<and> heap s' = heap s @ hs \<and> set st \<subseteq> set hs
     \<and> map getKind st = stagedKinds (getKind N)
     \<and> (\<forall>v\<in>set (operands N). \<exists>g. gradMap s' v = Some g \<and> fst g \<in> set hs)"
proof -
  from assms(2) consider
      (deleg) "getKind N \<in> {ConvolutionNodeKind, PoolNodeKind, FullyConnectedNodeKind,
                BatchNormalizationNodeKind, LocalResponseNormalizationNodeKind,
                SoftMaxNodeKind, RegressionNodeKind, ArithmeticNodeKind, ReluNodeKind,
                SigmoidNodeKind, TanhNodeKind}"
    | (save) "getKind N = SaveNodeKind"
    | (reshape) "getKind N = ReshapeNodeKind"
    | (transpose) "getKind N = TransposeNodeKind"
    | (slice) "getKind N = SliceNodeKind"
    | (concat) "getKind N = ConcatNodeKind"
    unfolding ruleKinds_def by blast
  then show ?thesis
  proof cases
    case deleg
    with assms obtain outputG where og: "getGradient (getResult N) s = Inr outputG"
      by (auto simp: gradStep_def getGrad_def split: sum.splits)
    let ?X = "GradNode (fresh s) (getKind N) (getName N) (operands N) outputG"
    let ?s1 = "s\<lparr>fresh := Suc (fresh s), heap := heap s @ [?X]\<rparr>"
    let ?s2 = "addGradients (operands N) ?X 0 ?s1"
    have s': "s' = push_back ?X ?s2"
      using assms deleg og by (auto simp: gradStep_def getGrad_def new_def)
    have "heap ?s1 = heap s @ [?X]" by simp
    from addGradients_new [OF this, of ?X "{}" "operands N" 0]
    obtain hs where hs: "heap ?s2 = heap s @ hs" "set [?X] \<subseteq> set hs"
      "\<forall>w\<in>set (operands N). \<exists>g'. gradMap ?s2 w = Some g' \<and> fst g' \<in> set hs"
      by auto
    show ?thesis
    proof (intro exI conjI)
      show "toAppend s' = toAppend s @ [?X]"
        unfolding s' by (simp add: push_back_def toAppend_addGradients)
      show "heap s' = heap s @ hs"
        unfolding s' using hs(1) by (simp add: push_back_def)
      show "set [?X] \<subseteq> set hs" by (rule hs(2))
      show "map getKind [?X] = stagedKinds (getKind N)"
        using deleg by (auto simp: stagedKinds_def)
      show "\<forall>v\<in>set (operands N). \<exists>g. gradMap s' v = Some g \<and> fst g \<in> set hs"
        unfolding s' using hs(3) by (simp add: gradMap_push_back)
    qed
  next
    case save
    let ?X = "ZeroNode (fresh s) (getName N) (getType (fst (getInput N)))"
    let ?s2 = "s\<lparr>fresh := Suc (fresh s), heap := heap s @ [?X], toAppend := toAppend s @ [?X]\<rparr>"
    let ?s3 = "addGradient (getInput N) (NodeValueOf ?X) ?s2"
    have s': "s' = addGradient (getVariable N) (NodeValueOf ?X) ?s3"
      using assms save by (simp add: gradStep_def new_def push_back_def)
    have "heap ?s2 = heap s @ [?X]" by simp
    from addGradient_new [OF this, of "NodeValueOf ?X" "{}" "getInput N"]
    obtain hs1 where 1: "heap ?s3 = heap s @ hs1" "set [?X] \<subseteq> set hs1"
      "\<forall>w\<in>{getInput N}. \<exists>g'. gradMap ?s3 w = Some g' \<and> fst g' \<in> set hs1"
      by auto
    from 1(2) have "fst (NodeValueOf ?X) \<in> set hs1" by simp
    from addGradient_new [OF 1(1) this 1(3), of "getVariable N"]
    obtain hs where 2: "heap s' = heap s @ hs" "set hs1 \<subseteq> set hs"
      "\<forall>w\<in>{getVariable N, getInput N}. \<exists>g'. gradMap s' w = Some g' \<and> fst g' \<in> set hs"
      unfolding s' by auto
    show ?thesis
    proof (intro exI conjI)
      show "toAppend s' = toAppend s @ [?X]"
        unfolding s' by (simp add: toAppend_addGradient)
      show "heap s' = heap s @ hs" by (rule 2(1))
      show "set [?X] \<subseteq> set hs" using 1(2) 2(2) by auto
      show "map getKind [?X] = stagedKinds (getKind N)"
        using save by (simp add: stagedKinds_def)
      show "\<forall>v\<in>set (operands N). \<exists>g. gradMap s' v = Some g \<and> fst g \<in> set hs"
        using 2(3) by (simp add: operands_Save [OF save])
    qed
  next
    case reshape
    with assms obtain outputG where og: "getGradient (getResult N) s = Inr outputG"
      by (auto simp: gradStep_def split: sum.splits)
    let ?X = "ReshapeNode (fresh s) (getName N) (getType (fst (getInput N))) outputG
                (dims (getType (fst (getInput N))))"
    let ?s2 = "s\<lparr>fresh := Suc (fresh s), heap := heap s @ [?X], toAppend := toAppend s @ [?X]\<rparr>"
    have s': "s' = addGradient (getInput N) (NodeValueOf ?X) ?s2"
      using assms reshape og by (simp add: gradStep_def new_def push_back_def Let_def)
    have "heap ?s2 = heap s @ [?X]" by simp
    from addGradient_new [OF this, of "NodeValueOf ?X" "{}" "getInput N"]
    obtain hs where 1: "heap s' = heap s @ hs" "set [?X] \<subseteq> set hs"
      "\<forall>w\<in>{getInput N}. \<exists>g'. gradMap s' w = Some g' \<and> fst g' \<in> set hs"
      unfolding s' by auto
    have ops: "operands N = [getInput N]"
      using reshape by (intro operands_unary) simp
    show ?thesis
    proof (intro exI conjI)
      show "toAppend s' = toAppend s @ [?X]"
        unfolding s' by (simp add: toAppend_addGradient)
      show "heap s' = heap s @ hs" by (rule 1(1))
      show "set [?X] \<subseteq> set hs" by (rule 1(2))
      show "map getKind [?X] = stagedKinds (getKind N)"
        using reshape by (simp add: stagedKinds_def)
      show "\<forall>v\<in>set (operands N). \<exists>g. gradMap s' v = Some g \<and> fst g \<in> set hs"
        using 1(3) by (simp add: ops)
    qed
  next
    case transpose
    with assms obtain outputG rs where og: "getGradient (getResult N) s = Inr outputG"
      and rs: "reverseShuffleLoop (getShuffle N) 0 (getShuffle N) = Inr rs"
      by (auto simp: gradStep_def Let_def split: sum.splits)
    let ?X = "TransposeNode (fresh s) (getName N) (getType (fst (getInput N))) outputG rs"
    let ?s2 = "s\<lparr>fresh := Suc (fresh s), heap := heap s @ [?X], toAppend := toAppend s @ [?X]\<rparr>"
    have s': "s' = addGradient (getInput N) (NodeValueOf ?X) ?s2"
      using assms transpose og rs by (simp add: gradStep_def new_def push_back_def Let_def)
    have "heap ?s2 = heap s @ [?X]" by simp
    from addGradient_new [OF this, of "NodeValueOf ?X" "{}" "getInput N"]
    obtain hs where 1: "heap s' = heap s @ hs" "set [?X] \<subseteq> set hs"
      "\<forall>w\<in>{getInput N}. \<exists>g'. gradMap s' w = Some g' \<and> fst g' \<in> set hs"
      unfolding s' by auto
    have ops: "operands N = [getInput N]"
      using transpose by (intro operands_unary) simp
    show ?thesis
    proof (intro exI conjI)
      show "toAppend s' = toAppend s @ [?X]"
        unfolding s' by (simp add: toAppend_addGradient)
      show "heap s' = heap s @ hs" by (rule 1(1))
      show "set [?X] \<subseteq> set hs" by (rule 1(2))
      show "map getKind [?X] = stagedKinds (getKind N)"
        using transpose by (simp add: stagedKinds_def)
      show "\<forall>v\<in>set (operands N). \<exists>g. gradMap s' v = Some g \<and> fst g \<in> set hs"
        using 1(3) by (simp add: ops)
    qed
  next
    case slice
    let ?Z = "ZeroNode (fresh s) ''expand'' (getType (fst (getInput N)))"
    from assms slice obtain outputG where og: "gradMap s (getResult N) = Some outputG"
      by (auto simp: gradStep_def new_def getGradient_def split: sum.splits option.splits)
    let ?I = "InsertTensorNode (Suc (fresh s)) ''insert.slice.grad'' (NodeValueOf ?Z) outputG
                (getStart N)"
    let ?s2 = "s\<lparr>fresh := Suc (Suc (fresh s)), heap := heap s @ [?Z, ?I],
                 toAppend := toAppend s @ [?Z, ?I]\<rparr>"
    have s': "s' = addGradient (getInput N) (NodeValueOf ?I) ?s2"
      using assms slice og by (simp add: gradStep_def new_def push_back_def getGradient_def)
    have "heap ?s2 = heap s @ [?Z, ?I]" by simp
    from addGradient_new [OF this, of "NodeValueOf ?I" "{}" "getInput N"]
    obtain hs where 1: "heap s' = heap s @ hs" "set [?Z, ?I] \<subseteq> set hs"
      "\<forall>w\<in>{getInput N}. \<exists>g'. gradMap s' w = Some g' \<and> fst g' \<in> set hs"
      unfolding s' by auto
    have ops: "operands N = [getInput N]"
      using slice by (intro operands_unary) simp
    show ?thesis
    proof (intro exI conjI)
      show "toAppend s' = toAppend s @ [?Z, ?I]"
        unfolding s' by (simp add: toAppend_addGradient)
      show "heap s' = heap s @ hs" by (rule 1(1))
      show "set [?Z, ?I] \<subseteq> set hs" by (rule 1(2))
      show "map getKind [?Z, ?I] = stagedKinds (getKind N)"
        using slice by (simp add: stagedKinds_def)
      show "\<forall>v\<in>set (operands N). \<exists>g. gradMap s' v = Some g \<and> fst g \<in> set hs"
        using 1(3) by (simp add: ops)
    qed
  next
    case concat
    with assms obtain outputG where
      loop: "concatLoop (getInputs N) outputG (getDim N) (replicate (length (dims (getType N))) 0) s
        = Inr s'"
      by (auto simp: gradStep_def split: sum.splits)
    have "heap s = heap s @ []" by simp
    from concatLoop_new [OF loop this, of "{}"]
    obtain hs where 1: "heap s' = heap s @ hs"
      "\<forall>w\<in>set (getInputs N). \<exists>g'. gradMap s' w = Some g' \<and> fst g' \<in> set hs"
      by auto
    show ?thesis
    proof (intro exI conjI)
      show "toAppend s' = toAppend s @ []"
        using toAppend_concatLoop [OF loop] by simp
      show "heap s' = heap s @ hs" by (rule 1(1))
      show "set [] \<subseteq> set hs" by simp
      show "map getKind [] = stagedKinds (getKind N)"
        using concat by (simp add: stagedKinds_def)
      show "\<forall>v\<in>set (operands N). \<exists>g. gradMap s' v = Some g \<and> fst g \<in> set hs"
        using 1(2) by (simp add: operands_Concat [OF concat])
    qed
  qed
qed

lemma saveGradient_error: "saveGradient mode V s = Inl e \<Longrightarrow> e = MissingGradient"
  by (auto simp: saveGradient_def Let_def split: if_splits sum.splits prod.splits
      dest: getGradient_error)

lemma updateStep_error: "updateStep conf mode V s = Inl e \<Longrightarrow> e = MissingGradient"
  by (auto simp: updateStep_def Let_def split: if_splits sum.splits prod.splits
      dest: getGradient_error saveGradient_error)

lemma updateLoop_error: "updateLoop conf mode Vs s = Inl e \<Longrightarrow> e = MissingGradient"
proof (induction Vs arbitrary: s)
  case Nil
  then show ?case by simp
next
  case (Cons V Vs)
  then show ?case
    by (auto split: sum.splits dest: updateStep_error)
qed

text \<open>
  C9. A variable is skipped. A node whose kind is one of the sixteen kinds of \<open>ruleKinds\<close>
  is handled by the rule of its kind: the step never ends in \<open>UnsupportedKind\<close>; it ends
  in \<open>MissingGradient\<close> exactly when the rule looks up the gradient of the node's result
  (every rule but that of \<open>Save\<close>) and none is registered; it returns when that gradient is
  there and the index accesses of the rule are within bounds; and when it returns, it has
  pushed to \<open>toAppend\<close> new nodes of the classes of that rule and every operand of the
  node has a gradient registered; for the five rules written out in the pass, that
  gradient is a node the step has built. A node of any other kind that is not a variable
  ends the step in \<open>UnsupportedKind\<close>; the sweep that reaches it ends there, whatever
  follows, and so does \<open>generateGradientNodes\<close>. When every node is a variable or of one
  of the sixteen kinds, neither the sweep nor \<open>generateGradientNodes\<close> ends in
  \<open>UnsupportedKind\<close>.
\<close>

theorem dispatch_exhaustive:
  "(getKind N = VariableNodeKind \<longrightarrow> gradStep N s = Inr s)
   \<and> (getKind N \<in> ruleKinds \<longrightarrow>
        gradStep N s \<noteq> Inl UnsupportedKind
        \<and> (gradStep N s = Inl MissingGradient \<longleftrightarrow>
             getKind N \<noteq> SaveNodeKind \<and> gradMap s (getResult N) = None)
        \<and> ((getKind N = SaveNodeKind \<or> gradMap s (getResult N) \<noteq> None) \<and> inRange N \<longrightarrow>
             (\<exists>s'. gradStep N s = Inr s'))
        \<and> (\<forall>s'. gradStep N s = Inr s' \<longrightarrow>
              (\<exists>st hs. toAppend s' = toAppend s @ st \<and> heap s' = heap s @ hs \<and> set st \<subseteq> set hs
                 \<and> map getKind st = stagedKinds (getKind N)
                 \<and> (getKind N \<in> {SaveNodeKind, ReshapeNodeKind, TransposeNodeKind,
                                    SliceNodeKind, ConcatNodeKind} \<longrightarrow>
                      (\<forall>v\<in>set (operands N). \<exists>g. gradMap s' v = Some g \<and> fst g \<in> set hs)))
              \<and> dom (gradMap s') = dom (gradMap s) \<union> set (operands N)))
   \<and> (getKind N \<notin> ruleKinds \<and> getKind N \<noteq> VariableNodeKind \<longrightarrow>
        gradStep N s = Inl UnsupportedKind
        \<and> (\<forall>pre s1. sweep pre s0 = Inr s1 \<longrightarrow>
              sweep (pre @ N # rest) s0 = Inl UnsupportedKind)
        \<and> (\<forall>pre s1. rev (getPostOrder G) = pre @ N # rest
              \<and> sweep pre (G\<lparr>gradMap := Map.empty, toAppend := [], newVars := []\<rparr>) = Inr s1 \<longrightarrow>
              generateGradientNodes G conf mode = Inl UnsupportedKind))
   \<and> ((\<forall>M\<in>set Ns. getKind M \<in> insert VariableNodeKind ruleKinds) \<longrightarrow>
        sweep Ns s \<noteq> Inl UnsupportedKind)
   \<and> ((\<forall>M\<in>set (getPostOrder G). getKind M \<in> insert VariableNodeKind ruleKinds) \<longrightarrow>
        generateGradientNodes G conf mode \<noteq> Inl UnsupportedKind)"
proof (intro conjI impI allI)
  assume "getKind N = VariableNodeKind"
  then show "gradStep N s = Inr s" by (rule gradStep_Variable)
next
  assume "getKind N \<in> ruleKinds"
  then show "gradStep N s \<noteq> Inl UnsupportedKind" by (rule gradStep_rule_kind)
next
  assume k: "getKind N \<in> ruleKinds"
  show "gradStep N s = Inl MissingGradient \<longleftrightarrow>
          getKind N \<noteq> SaveNodeKind \<and> gradMap s (getResult N) = None"
    using gradStep_missing [of N s] gradStep_lookup [OF k, of s] by blast
next
  assume k: "getKind N \<in> ruleKinds"
    and r: "(getKind N = SaveNodeKind \<or> gradMap s (getResult N) \<noteq> None) \<and> inRange N"
  show "\<exists>s'. gradStep N s = Inr s'"
    using k r by (intro gradStep_succeeds) (auto simp: inRange_def)
next
  fix s' assume k: "getKind N \<in> ruleKinds" and st: "gradStep N s = Inr s'"
  from gradStep_effect [OF st k]
  show "\<exists>st hs. toAppend s' = toAppend s @ st \<and> heap s' = heap s @ hs \<and> set st \<subseteq> set hs
                 \<and> map getKind st = stagedKinds (getKind N)
                 \<and> (getKind N \<in> {SaveNodeKind, ReshapeNodeKind, TransposeNodeKind,
                                    SliceNodeKind, ConcatNodeKind} \<longrightarrow>
                      (\<forall>v\<in>set (operands N). \<exists>g. gradMap s' v = Some g \<and> fst g \<in> set hs))"
    by blast
  have "getKind N \<noteq> VariableNodeKind"
    using k by (auto simp: ruleKinds_def)
  with gradStep_dom [OF st]
  show "dom (gradMap s') = dom (gradMap s) \<union> set (operands N)" by simp
next
  assume o: "getKind N \<notin> ruleKinds \<and> getKind N \<noteq> VariableNodeKind"
  then show "gradStep N s = Inl UnsupportedKind"
    by (simp add: gradStep_other_kind)
next
  fix pre s1
  assume o: "getKind N \<notin> ruleKinds \<and> getKind N \<noteq> VariableNodeKind"
    and "sweep pre s0 = Inr s1"
  then show "sweep (pre @ N # rest) s0 = Inl UnsupportedKind"
    by (simp add: sweep_append gradStep_other_kind)
next
  fix pre s1
  assume o: "getKind N \<notin> ruleKinds \<and> getKind N \<noteq> VariableNodeKind"
    and "rev (getPostOrder G) = pre @ N # rest
         \<and> sweep pre (G\<lparr>gradMap := Map.empty, toAppend := [], newVars := []\<rparr>) = Inr s1"
  then show "generateGradientNodes G conf mode = Inl UnsupportedKind"
    by (simp add: generateGradientNodes_phases sweep_append gradStep_other_kind)
next
  assume "\<forall>M\<in>set Ns. getKind M \<in> insert VariableNodeKind ruleKinds"
  then show "sweep Ns s \<noteq> Inl UnsupportedKind" by (rule sweep_rule_kinds)
next
  assume "\<forall>M\<in>set (getPostOrder G). getKind M \<in> insert VariableNodeKind ruleKinds"
  then have "\<forall>M\<in>set (rev (getPostOrder G)). getKind M \<in> insert VariableNodeKind ruleKinds"
    by simp
  from sweep_rule_kinds [OF this]
  have "sweep (rev (getPostOrder G)) (G\<lparr>gradMap := Map.empty, toAppend := [], newVars := []\<rparr>)
          \<noteq> Inl UnsupportedKind" .
  then show "generateGradientNodes G conf mode \<noteq> Inl UnsupportedKind"
    unfolding generateGradientNodes_phases
    by (auto split: sum.splits dest: updateLoop_error)
qed

theorem dispatch_exhaustive_witness:
  "gradStep ex_in ex_empty = Inr ex_empty
   \<and> (\<exists>s'. gradStep ex_tr ex_tr_state = Inr s'
          \<and> map getKind (toAppend s') = [TransposeNodeKind]
          \<and> dom (gradMap s') = {getResult ex_tr, NodeValueOf ex_in}
          \<and> (\<exists>g. gradMap s' (NodeValueOf ex_in) = Some g \<and> fst g \<in> set (heap s')))
   \<and> gradStep ex_tr ex_empty = Inl MissingGradient
   \<and> gradStep ex_zero ex_empty = Inl UnsupportedKind
   \<and> sweep ([ex_in] @ ex_zero # [ex_tr]) ex_empty = Inl UnsupportedKind
   \<and> generateGradientNodes ex_unsup ex_conf Train = Inl UnsupportedKind
   \<and> sweep [ex_in, ex_tr] ex_empty \<noteq> Inl UnsupportedKind
   \<and> generateGradientNodes ex_fan ex_conf Train \<noteq> Inl UnsupportedKind"
proof -
  have k_in: "getKind ex_in = VariableNodeKind"
    by (simp add: ex_in_def)
  have k_tr: "getKind ex_tr \<in> ruleKinds"
    by (simp add: ex_tr_def ruleKinds_def)
  have k_zero: "getKind ex_zero \<notin> ruleKinds \<and> getKind ex_zero \<noteq> VariableNodeKind"
    by (simp add: ex_zero_def ruleKinds_def)
  note var = dispatch_exhaustive [where N = ex_in and s = ex_empty, THEN conjunct1, THEN mp, OF k_in]
  note rule = dispatch_exhaustive [where N = ex_tr and s = ex_tr_state,
      THEN conjunct2, THEN conjunct1, THEN mp, OF k_tr]
  have "(getKind ex_tr = SaveNodeKind \<or> gradMap ex_tr_state (getResult ex_tr) \<noteq> None)
        \<and> inRange ex_tr"
    by (simp add: ex_tr_state_def ex_tr_def inRange_def)
  with rule [THEN conjunct2, THEN conjunct2, THEN conjunct1]
  obtain s' where s': "gradStep ex_tr ex_tr_state = Inr s'"
    by blast
  have five: "getKind ex_tr \<in> {SaveNodeKind, ReshapeNodeKind, TransposeNodeKind,
      SliceNodeKind, ConcatNodeKind}"
    by (simp add: ex_tr_def)
  from rule [THEN conjunct2, THEN conjunct2, THEN conjunct2, THEN spec, THEN mp, OF s']
  obtain st hs where st: "toAppend s' = toAppend ex_tr_state @ st"
      "map getKind st = stagedKinds (getKind ex_tr)"
    and hs: "heap s' = heap ex_tr_state @ hs"
      "\<forall>v\<in>set (operands ex_tr). \<exists>g. gradMap s' v = Some g \<and> fst g \<in> set hs"
    and d: "dom (gradMap s') = dom (gradMap ex_tr_state) \<union> set (operands ex_tr)"
    using five by blast
  have built: "\<exists>g. gradMap s' (NodeValueOf ex_in) = Some g \<and> fst g \<in> set (heap s')"
    using hs by (simp add: ex_tr_state_def ex_tr_def)
  have staged: "map getKind (toAppend s') = [TransposeNodeKind]"
    using st by (simp add: ex_tr_state_def ex_tr_def stagedKinds_def)
  have registered: "dom (gradMap s') = {getResult ex_tr, NodeValueOf ex_in}"
    using d by (auto simp: ex_tr_state_def ex_tr_def)
  note rule' = dispatch_exhaustive [where N = ex_tr and s = ex_empty,
      THEN conjunct2, THEN conjunct1, THEN mp, OF k_tr]
  have missing: "gradStep ex_tr ex_empty = Inl MissingGradient"
    using rule' [THEN conjunct2, THEN conjunct1]
    by (simp add: ex_tr_def ex_empty_def)
  note other = dispatch_exhaustive [where N = ex_zero and s = ex_empty and ?s0.0 = ex_empty
      and rest = "[ex_tr]", THEN conjunct2, THEN conjunct2, THEN conjunct1, THEN mp, OF k_zero]
  have unsupported: "gradStep ex_zero ex_empty = Inl UnsupportedKind"
    using other by (rule conjunct1)
  have "sweep [ex_in] ex_empty = Inr ex_empty"
    by (simp add: var)
  from other [THEN conjunct2, THEN conjunct1, THEN spec, THEN spec, THEN mp, OF this]
  have aborts: "sweep ([ex_in] @ ex_zero # [ex_tr]) ex_empty = Inl UnsupportedKind" .
  note pass = dispatch_exhaustive [where N = ex_zero and G = ex_unsup and rest = "[ex_uO]"
      and conf = ex_conf and mode = Train,
      THEN conjunct2, THEN conjunct2, THEN conjunct1, THEN mp, OF k_zero,
      THEN conjunct2, THEN conjunct2]
  have order: "rev (getPostOrder ex_unsup) = [ex_uS] @ ex_zero # [ex_uO]"
    by (simp add: getPostOrder_def ex_unsup_def visit.simps ex_uO_def ex_uS_def ex_zero_def)
  have "\<exists>s1. gradStep ex_uS ex_unsup = Inr s1"
    by (rule gradStep_succeeds) (simp_all add: ex_uS_def ruleKinds_def)
  then obtain s1 where sw: "sweep [ex_uS] ex_unsup = Inr s1"
    by auto
  have e: "ex_unsup\<lparr>gradMap := Map.empty, toAppend := [], newVars := []\<rparr> = ex_unsup"
    by (simp add: ex_unsup_def)
  have fatal: "generateGradientNodes ex_unsup ex_conf Train = Inl UnsupportedKind"
    using pass [unfolded e, THEN spec, THEN spec, THEN mp, OF conjI, OF order sw] .
  have "\<forall>M\<in>set [ex_in, ex_tr]. getKind M \<in> insert VariableNodeKind ruleKinds"
    using k_in k_tr by simp
  with dispatch_exhaustive [where Ns = "[ex_in, ex_tr]" and s = ex_empty,
      THEN conjunct2, THEN conjunct2, THEN conjunct2, THEN conjunct1]
  have listed: "sweep [ex_in, ex_tr] ex_empty \<noteq> Inl UnsupportedKind"
    by (rule mp)
  have "\<forall>M\<in>set (getPostOrder ex_fan). getKind M \<in> insert VariableNodeKind ruleKinds"
    unfolding ex_fan_order
    by (simp add: ruleKinds_def ex_fA_def ex_fO1_def ex_fO2_def ex_fR1_def ex_fS1_def
        ex_fR2_def ex_fS2_def)
  with dispatch_exhaustive [where G = ex_fan and conf = ex_conf and mode = Train,
      THEN conjunct2, THEN conjunct2, THEN conjunct2, THEN conjunct2]
  have returns: "generateGradientNodes ex_fan ex_conf Train \<noteq> Inl UnsupportedKind"
    by (rule mp)
  from s' staged registered built have ex: "\<exists>s'. gradStep ex_tr ex_tr_state = Inr s'
          \<and> map getKind (toAppend s') = [TransposeNodeKind]
          \<and> dom (gradMap s') = {getResult ex_tr, NodeValueOf ex_in}
          \<and> (\<exists>g. gradMap s' (NodeValueOf ex_in) = Some g \<and> fst g \<in> set (heap s'))"
    by (intro exI [of _ s'] conjI)
  show ?thesis
    by (intro conjI) (fact var ex missing unsupported aborts fatal listed returns)+
qed

subsection \<open>The sweep over the reversed order\<close>

lemma operands_Variable: "getKind M = VariableNodeKind \<Longrightarrow> operands M = []"
  by (cases M) (simp_all add: kindOf_other)

lemma sweep_dom_eq:
  "sweep Ns s = Inr s' \<Longrightarrow>
   dom (gradMap s') = dom (gradMap s) \<union> (\<Union>M\<in>set Ns. set (operands M))"
proof (induction Ns arbitrary: s)
  case Nil
  then show ?case by simp
next
  case (Cons N Ns)
  then obtain s1 where s1: "gradStep N s = Inr s1" "sweep Ns s1 = Inr s'"
    by (auto split: sum.splits)
  have "dom (gradMap s1) = dom (gradMap s) \<union> set (operands N)"
    using gradStep_dom [OF s1(1)] by (simp add: operands_Variable)
  with Cons.IH [OF s1(2)] show ?case
    by auto
qed

lemma gradStep_supported_error:
  assumes "getKind N \<in> insert VariableNodeKind ruleKinds" and "inRange N"
    and "gradStep N s = Inl e"
  shows "e = MissingGradient"
proof (cases "looksUp N \<and> gradMap s (getResult N) = None")
  case True
  then have "gradStep N s = Inl MissingGradient"
    by (intro gradStep_lookup) (simp_all add: looksUp_def)
  with assms(3) show ?thesis by simp
next
  case False
  then have "getKind N \<in> ruleKinds \<and> getKind N \<noteq> SaveNodeKind
             \<longrightarrow> gradMap s (getResult N) \<noteq> None"
    by (auto simp: looksUp_def)
  from gradStep_succeeds [OF assms(1) this] assms(2) have "\<exists>s'. gradStep N s = Inr s'"
    by (simp add: inRange_def)
  with assms(3) show ?thesis by simp
qed

lemma sweep_supported_error:
  assumes "\<forall>N\<in>set Ns. getKind N \<in> insert VariableNodeKind ruleKinds \<and> inRange N"
    and "sweep Ns s = Inl e"
  shows "e = MissingGradient"
  using assms
proof (induction Ns arbitrary: s)
  case Nil
  then show ?case by simp
next
  case (Cons N Ns)
  show ?case
  proof (cases "gradStep N s")
    case (Inl e')
    with Cons.prems show ?thesis
      using gradStep_supported_error [of N s e'] by simp
  next
    case (Inr s1)
    with Cons.prems have "sweep Ns s1 = Inl e" by simp
    with Cons.IH [of s1] Cons.prems(1) show ?thesis by simp
  qed
qed

lemma ex_dangling_order: "getPostOrder ex_dangling = [ex_dA, ex_dR]"
  by (simp add: getPostOrder_def ex_dangling_def visit.simps ex_dA_def ex_dR_def)

text \<open>
  C1, as stated, fails. In the graph \<open>ex_dangling\<close> the reshape node \<open>r\<close> is in the graph
  and has no consumer. The order is \<open>[A, r]\<close>; the sweep starts with \<open>r\<close>, whose rule looks
  up the gradient of its result, which nobody has registered: the lookup fails, and so
  does the pass.
\<close>

theorem reverse_post_order_sweep_counterexample:
  "getPostOrder ex_dangling = [ex_dA, ex_dR]
   \<and> gradStep ex_dR ex_dangling = Inl MissingGradient
   \<and> sweep (rev (getPostOrder ex_dangling)) ex_dangling = Inl MissingGradient
   \<and> generateGradientNodes ex_dangling ex_conf Train = Inl MissingGradient"
proof -
  have order: "getPostOrder ex_dangling = [ex_dA, ex_dR]"
    by (simp add: getPostOrder_def ex_dangling_def visit.simps ex_dA_def ex_dR_def)
  have step: "gradStep ex_dR ex_dangling = Inl MissingGradient"
    by (simp add: gradStep_def getGradient_def ex_dangling_def ex_dR_def)
  have sw: "sweep (rev (getPostOrder ex_dangling)) ex_dangling = Inl MissingGradient"
    unfolding order by (simp add: step)
  have "ex_dangling\<lparr>gradMap := Map.empty, toAppend := [], newVars := []\<rparr> = ex_dangling"
    by (simp add: ex_dangling_def)
  then have "generateGradientNodes ex_dangling ex_conf Train = Inl MissingGradient"
    unfolding generateGradientNodes_phases by (simp add: sw)
  with order step sw show ?thesis
    by simp
qed

text \<open>
  C1, amended. For every graph: the order holds every variable and every node of the
  graph, once each, and the operands of a node precede it; when the reverse sweep
  reaches a node \<open>N\<close>, every node that consumes \<open>N\<close> is among the nodes already swept, each
  of these has registered a gradient for each of its operands, the gradient of the
  result of \<open>N\<close> is registered exactly when some node of the graph consumes that result,
  and the step at \<open>N\<close> fails for a missing gradient exactly when the rule of \<open>N\<close> looks
  that gradient up and nobody consumes the result. So, when every node whose rule looks
  up has a consumer, the sweep does not fail for a missing gradient,
  \<open>generateGradientNodes\<close> can only do so in the update loop, and the sweep returns when
  moreover every node is of a supported kind with its index accesses within bounds;
  when some node whose rule looks up has no consumer, the sweep fails, at that node or
  before, and so does \<open>generateGradientNodes\<close>, with \<open>MissingGradient\<close> when every node is
  of a supported kind with its index accesses within bounds.
\<close>

theorem reverse_post_order_sweep:
  "set (vars G) \<union> set (nodes G) \<subseteq> set (getPostOrder G)
   \<and> distinct (getPostOrder G)
   \<and> (\<forall>ys N zs. getPostOrder G = ys @ N # zs \<longrightarrow> fst ` set (operands N) \<subseteq> set ys)
   \<and> (\<forall>pre N rest. rev (getPostOrder G) = pre @ N # rest \<longrightarrow>
        (\<forall>M\<in>set (getPostOrder G). N \<in> fst ` set (operands M) \<longrightarrow> M \<in> set pre)
        \<and> (\<forall>s. sweep pre (G\<lparr>gradMap := Map.empty, toAppend := [], newVars := []\<rparr>) = Inr s \<longrightarrow>
              (\<forall>M\<in>set pre. getKind M \<noteq> VariableNodeKind \<longrightarrow>
                  set (operands M) \<subseteq> dom (gradMap s))
              \<and> (gradMap s (getResult N) \<noteq> None \<longleftrightarrow> consumed (getPostOrder G) N)
              \<and> (gradStep N s = Inl MissingGradient \<longleftrightarrow>
                   looksUp N \<and> \<not> consumed (getPostOrder G) N)))
   \<and> ((\<forall>N\<in>set (getPostOrder G). looksUp N \<longrightarrow> consumed (getPostOrder G) N) \<longrightarrow>
        sweep (rev (getPostOrder G)) (G\<lparr>gradMap := Map.empty, toAppend := [], newVars := []\<rparr>)
          \<noteq> Inl MissingGradient
        \<and> (generateGradientNodes G conf mode = Inl MissingGradient \<longrightarrow>
             (\<exists>s1. sweep (rev (getPostOrder G))
                      (G\<lparr>gradMap := Map.empty, toAppend := [], newVars := []\<rparr>) = Inr s1
                  \<and> updateLoop conf mode (vars s1) s1 = Inl MissingGradient))
        \<and> ((\<forall>N\<in>set (getPostOrder G).
               getKind N \<in> insert VariableNodeKind ruleKinds \<and> inRange N) \<longrightarrow>
             (\<exists>s1. sweep (rev (getPostOrder G))
                      (G\<lparr>gradMap := Map.empty, toAppend := [], newVars := []\<rparr>) = Inr s1)))
   \<and> ((\<exists>N\<in>set (getPostOrder G). looksUp N \<and> \<not> consumed (getPostOrder G) N) \<longrightarrow>
        (\<exists>e. sweep (rev (getPostOrder G))
                (G\<lparr>gradMap := Map.empty, toAppend := [], newVars := []\<rparr>) = Inl e
             \<and> generateGradientNodes G conf mode = Inl e)
        \<and> ((\<forall>N\<in>set (getPostOrder G).
               getKind N \<in> insert VariableNodeKind ruleKinds \<and> inRange N) \<longrightarrow>
             sweep (rev (getPostOrder G))
               (G\<lparr>gradMap := Map.empty, toAppend := [], newVars := []\<rparr>) = Inl MissingGradient
             \<and> generateGradientNodes G conf mode = Inl MissingGradient))"
proof -
  let ?order = "getPostOrder G"
  let ?s0 = "G\<lparr>gradMap := Map.empty, toAppend := [], newVars := []\<rparr>"
  have dep: "depOrdered [] ?order" and all: "set (vars G) \<union> set (nodes G) \<subseteq> set ?order"
    using getPostOrder_props [of G] by simp_all
  have dist: "distinct ?order"
    using dep depOrdered_distinct by blast
  have before: "fst ` set (operands N) \<subseteq> set ys" if "?order = ys @ N # zs" for ys N zs
    using dep depOrdered_split [of "[]" ys N zs] that by simp
  have later: "M \<in> set pre"
    if "rev ?order = pre @ N # rest" "M \<in> set ?order" "N \<in> fst ` set (operands M)"
    for pre N rest M
  proof -
    from that(1) have "?order = rev rest @ N # rev pre"
      by (simp add: rev_swap)
    from consumers_later [OF dep this that(2,3)] show ?thesis
      by simp
  qed
  have reached: "(\<forall>M\<in>set pre. getKind M \<noteq> VariableNodeKind \<longrightarrow>
                    set (operands M) \<subseteq> dom (gradMap s))
      \<and> (gradMap s (getResult N) \<noteq> None \<longleftrightarrow> consumed ?order N)
      \<and> (gradStep N s = Inl MissingGradient \<longleftrightarrow> looksUp N \<and> \<not> consumed ?order N)"
    if split: "rev ?order = pre @ N # rest" and run: "sweep pre ?s0 = Inr s" for pre N rest s
  proof -
    have inv: "\<forall>M\<in>set pre. getKind M \<noteq> VariableNodeKind \<longrightarrow> set (operands M) \<subseteq> dom (gradMap s)"
      using sweep_dom [OF run] by simp
    have d: "dom (gradMap s) = (\<Union>M\<in>set pre. set (operands M))"
      using sweep_dom_eq [OF run] by simp
    have pre: "set pre \<subseteq> set ?order"
    proof -
      have "set pre \<subseteq> set (rev ?order)"
        unfolding split by auto
      then show ?thesis by simp
    qed
    have reg: "gradMap s (getResult N) \<noteq> None \<longleftrightarrow> consumed ?order N"
    proof
      assume "gradMap s (getResult N) \<noteq> None"
      then have "getResult N \<in> dom (gradMap s)"
        by (simp add: dom_def)
      with d obtain M where "M \<in> set pre" "getResult N \<in> set (operands M)"
        by auto
      with pre show "consumed ?order N"
        unfolding consumed_def by blast
    next
      assume "consumed ?order N"
      then obtain M where M: "M \<in> set ?order" "getResult N \<in> set (operands M)"
        unfolding consumed_def by blast
      then have "N \<in> fst ` set (operands M)"
        by force
      with later [OF split M(1)] have Mpre: "M \<in> set pre" by simp
      with d M(2) have "getResult N \<in> dom (gradMap s)"
        by blast
      then show "gradMap s (getResult N) \<noteq> None"
        by (simp add: dom_def)
    qed
    have step: "gradStep N s = Inl MissingGradient \<longleftrightarrow> looksUp N \<and> \<not> consumed ?order N"
    proof
      assume "gradStep N s = Inl MissingGradient"
      from gradStep_missing [OF this] reg show "looksUp N \<and> \<not> consumed ?order N"
        by (simp add: looksUp_def)
    next
      assume "looksUp N \<and> \<not> consumed ?order N"
      with reg have "getKind N \<in> ruleKinds" "getKind N \<noteq> SaveNodeKind"
        "gradMap s (getResult N) = None"
        unfolding looksUp_def by blast+
      then show "gradStep N s = Inl MissingGradient"
        by (rule gradStep_lookup)
    qed
    from inv reg step show ?thesis
      by (intro conjI)
  qed
  have phases: "generateGradientNodes G conf mode = Inl e" if "sweep (rev ?order) ?s0 = Inl e" for e
    using that by (simp add: generateGradientNodes_phases)
  have no_missing: "sweep pre ?s0 \<noteq> Inl MissingGradient"
    if cons: "\<forall>N\<in>set ?order. looksUp N \<longrightarrow> consumed ?order N"
      and "rev ?order = pre @ rest" for pre rest
    using that(2)
  proof (induction pre arbitrary: rest rule: rev_induct)
    case Nil
    show ?case by simp
  next
    case (snoc N pre)
    then have split: "rev ?order = pre @ N # rest" by simp
    from snoc.IH [OF split] have IH: "sweep pre ?s0 \<noteq> Inl MissingGradient" .
    have "N \<in> set ?order"
      using split by (metis in_set_conv_decomp set_rev)
    with cons have c: "looksUp N \<longrightarrow> consumed ?order N" by blast
    show ?case
    proof (cases "sweep pre ?s0")
      case (Inl e)
      with IH show ?thesis
        by (simp add: sweep_append)
    next
      case (Inr s)
      from reached [OF split Inr] c have "gradStep N s \<noteq> Inl MissingGradient"
        by blast
      with Inr show ?thesis
        by (auto simp: sweep_append split: sum.splits)
    qed
  qed
  have succeeds: "\<exists>s. sweep pre ?s0 = Inr s"
    if cons: "\<forall>N\<in>set ?order. looksUp N \<longrightarrow> consumed ?order N"
      and ok: "\<forall>N\<in>set ?order. getKind N \<in> insert VariableNodeKind ruleKinds \<and> inRange N"
      and "rev ?order = pre @ rest" for pre rest
  proof (cases "sweep pre ?s0")
    case (Inr s)
    then show ?thesis by blast
  next
    case (Inl e)
    have "set pre \<subseteq> set (rev ?order)"
      unfolding that(3) by auto
    with ok have "\<forall>N\<in>set pre. getKind N \<in> insert VariableNodeKind ruleKinds \<and> inRange N"
      by auto
    from sweep_supported_error [OF this Inl] Inl no_missing [OF cons that(3)]
    show ?thesis by simp
  qed
  have fails: "\<exists>e. sweep (rev ?order) ?s0 = Inl e"
    if "\<exists>N\<in>set ?order. looksUp N \<and> \<not> consumed ?order N"
  proof -
    from that obtain N where N: "N \<in> set ?order" "looksUp N \<and> \<not> consumed ?order N"
      by blast
    from N(1) have "N \<in> set (rev ?order)" by simp
    then obtain pre rest where split: "rev ?order = pre @ N # rest"
      by (auto simp: in_set_conv_decomp)
    show ?thesis
    proof (cases "sweep pre ?s0")
      case (Inl e)
      then show ?thesis
        unfolding split by (simp add: sweep_append)
    next
      case (Inr s)
      from reached [OF split Inr] N(2) have "gradStep N s = Inl MissingGradient"
        by blast
      with Inr show ?thesis
        unfolding split by (simp add: sweep_append)
    qed
  qed
  show ?thesis
  proof (intro conjI allI impI)
    show "set (vars G) \<union> set (nodes G) \<subseteq> set ?order" by (rule all)
    show "distinct ?order" by (rule dist)
  next
    fix ys N zs assume "?order = ys @ N # zs"
    then show "fst ` set (operands N) \<subseteq> set ys" by (rule before)
  next
    fix pre N rest assume split: "rev ?order = pre @ N # rest"
    show "\<forall>M\<in>set ?order. N \<in> fst ` set (operands M) \<longrightarrow> M \<in> set pre"
      using later [OF split] by blast
  next
    fix pre N rest s
    assume split: "rev ?order = pre @ N # rest" and run: "sweep pre ?s0 = Inr s"
    from reached [OF split run]
    show "\<forall>M\<in>set pre. getKind M \<noteq> VariableNodeKind \<longrightarrow> set (operands M) \<subseteq> dom (gradMap s)"
      and "gradMap s (getResult N) \<noteq> None \<longleftrightarrow> consumed ?order N"
      and "gradStep N s = Inl MissingGradient \<longleftrightarrow> looksUp N \<and> \<not> consumed ?order N"
      by blast+
  next
    assume cons: "\<forall>N\<in>set ?order. looksUp N \<longrightarrow> consumed ?order N"
    show "sweep (rev ?order) ?s0 \<noteq> Inl MissingGradient"
      using no_missing [OF cons, of "rev ?order" "[]"] by simp
  next
    assume cons: "\<forall>N\<in>set ?order. looksUp N \<longrightarrow> consumed ?order N"
      and g: "generateGradientNodes G conf mode = Inl MissingGradient"
    have nm: "sweep (rev ?order) ?s0 \<noteq> Inl MissingGradient"
      using no_missing [OF cons, of "rev ?order" "[]"] by simp
    show "\<exists>s1. sweep (rev ?order) ?s0 = Inr s1
             \<and> updateLoop conf mode (vars s1) s1 = Inl MissingGradient"
    proof (cases "sweep (rev ?order) ?s0")
      case (Inl e)
      with phases [OF Inl] g nm show ?thesis by simp
    next
      case (Inr s1)
      with g have "updateLoop conf mode (vars s1) s1 = Inl MissingGradient"
        by (simp add: generateGradientNodes_phases split: sum.splits)
      with Inr show ?thesis by blast
    qed
  next
    assume cons: "\<forall>N\<in>set ?order. looksUp N \<longrightarrow> consumed ?order N"
      and ok: "\<forall>N\<in>set ?order. getKind N \<in> insert VariableNodeKind ruleKinds \<and> inRange N"
    from succeeds [OF cons ok, of "rev ?order" "[]"]
    show "\<exists>s1. sweep (rev ?order) ?s0 = Inr s1"
      by simp
  next
    assume un: "\<exists>N\<in>set ?order. looksUp N \<and> \<not> consumed ?order N"
    from fails [OF un] obtain e where e: "sweep (rev ?order) ?s0 = Inl e"
      by blast
    with phases [OF e]
    show "\<exists>e. sweep (rev ?order) ?s0 = Inl e \<and> generateGradientNodes G conf mode = Inl e"
      by blast
  next
    assume un: "\<exists>N\<in>set ?order. looksUp N \<and> \<not> consumed ?order N"
      and ok: "\<forall>N\<in>set ?order. getKind N \<in> insert VariableNodeKind ruleKinds \<and> inRange N"
    from fails [OF un] obtain e where e: "sweep (rev ?order) ?s0 = Inl e"
      by blast
    from ok have "\<forall>N\<in>set (rev ?order). getKind N \<in> insert VariableNodeKind ruleKinds \<and> inRange N"
      by simp
    from sweep_supported_error [OF this e] e
    show m: "sweep (rev ?order) ?s0 = Inl MissingGradient"
      by simp
    from phases [OF m] show "generateGradientNodes G conf mode = Inl MissingGradient" .
  qed
qed

theorem reverse_post_order_sweep_witness:
  "distinct (getPostOrder ex_fan)
   \<and> (\<exists>s. sweep [ex_fS2] ex_fan = Inr s
          \<and> gradMap s (getResult ex_fR2) \<noteq> None
          \<and> gradStep ex_fR2 s \<noteq> Inl MissingGradient)
   \<and> (\<exists>s1. sweep (rev (getPostOrder ex_fan)) ex_fan = Inr s1)
   \<and> sweep (rev (getPostOrder ex_dangling)) ex_dangling = Inl MissingGradient
   \<and> generateGradientNodes ex_dangling ex_conf Train = Inl MissingGradient"
proof -
  have e1: "ex_fan\<lparr>gradMap := Map.empty, toAppend := [], newVars := []\<rparr> = ex_fan"
    by (simp add: ex_fan_def)
  have e2: "ex_dangling\<lparr>gradMap := Map.empty, toAppend := [], newVars := []\<rparr> = ex_dangling"
    by (simp add: ex_dangling_def)
  note F = reverse_post_order_sweep [where G = ex_fan and conf = ex_conf and mode = Train,
      unfolded e1]
  note D = reverse_post_order_sweep [where G = ex_dangling and conf = ex_conf and mode = Train,
      unfolded e2]
  have dist: "distinct (getPostOrder ex_fan)"
    using F by (elim conjE)
  have ord: "rev (getPostOrder ex_fan) = [ex_fS2] @ ex_fR2 # [ex_fS1, ex_fR1, ex_fO2, ex_fO1, ex_fA]"
    by (simp add: ex_fan_order)
  have "\<exists>s. gradStep ex_fS2 ex_fan = Inr s"
    by (rule gradStep_succeeds) (simp_all add: ex_fS2_def ruleKinds_def)
  then obtain s where sw: "sweep [ex_fS2] ex_fan = Inr s"
    by auto
  note at = F [THEN conjunct2, THEN conjunct2, THEN conjunct2, THEN conjunct1,
      THEN spec, THEN spec, THEN spec, THEN mp, OF ord, THEN conjunct2,
      THEN spec, THEN mp, OF sw, THEN conjunct2]
  have cons: "consumed (getPostOrder ex_fan) ex_fR2"
    unfolding ex_fan_order by (simp add: consumed_def ex_fS2_def)
  from at cons have reg: "gradMap s (getResult ex_fR2) \<noteq> None"
    and step: "gradStep ex_fR2 s \<noteq> Inl MissingGradient"
    by blast+
  from sw reg step have reached: "\<exists>s. sweep [ex_fS2] ex_fan = Inr s
          \<and> gradMap s (getResult ex_fR2) \<noteq> None
          \<and> gradStep ex_fR2 s \<noteq> Inl MissingGradient"
    by (intro exI conjI)
  have all: "\<forall>N\<in>set (getPostOrder ex_fan). looksUp N \<longrightarrow> consumed (getPostOrder ex_fan) N"
    unfolding ex_fan_order
    by (simp add: looksUp_def consumed_def ruleKinds_def ex_fA_def ex_fO1_def ex_fO2_def
        ex_fR1_def ex_fS1_def ex_fR2_def ex_fS2_def)
  have ok: "\<forall>N\<in>set (getPostOrder ex_fan).
      getKind N \<in> insert VariableNodeKind ruleKinds \<and> inRange N"
    unfolding ex_fan_order
    by (simp add: inRange_def ruleKinds_def ex_fA_def ex_fO1_def ex_fO2_def
        ex_fR1_def ex_fS1_def ex_fR2_def ex_fS2_def)
  note returns = F [THEN conjunct2, THEN conjunct2, THEN conjunct2, THEN conjunct2,
      THEN conjunct1, THEN mp, OF all, THEN conjunct2, THEN conjunct2, THEN mp, OF ok]
  have un: "\<exists>N\<in>set (getPostOrder ex_dangling).
      looksUp N \<and> \<not> consumed (getPostOrder ex_dangling) N"
    unfolding ex_dangling_order
    by (simp add: looksUp_def consumed_def ruleKinds_def ex_dA_def ex_dR_def)
  have okd: "\<forall>N\<in>set (getPostOrder ex_dangling).
      getKind N \<in> insert VariableNodeKind ruleKinds \<and> inRange N"
    unfolding ex_dangling_order
    by (simp add: inRange_def ruleKinds_def ex_dA_def ex_dR_def)
  note fails = D [THEN conjunct2, THEN conjunct2, THEN conjunct2, THEN conjunct2,
      THEN conjunct2, THEN mp, OF un, THEN conjunct2, THEN mp, OF okd]
  show ?thesis
    by (intro conjI) (fact dist reached returns fails [THEN conjunct1] fails [THEN conjunct2])+
qed

end
